theory Spec2Isabelle
  imports Main "HOL-Library.Sublist" "HOL-Library.AList"
begin

section \<open>Python values used as node identifiers, keys and attribute values\<close>

text \<open>
  \<^verbatim>\<open>flowpaths/multigraphdecomposer.py\<close> never fixes the type of a node: networkx accepts
  any hashable object. The model covers the three kinds of value whose behaviour under
  the two operations the code applies to a node (the f-string rendering and the test
  \<^verbatim>\<open>"_split_" in u\<close>) differs: strings, integers and tuples. Equality of the datatype is
  Python's \<^verbatim>\<open>==\<close> on these values. A string is a list of code points below 256.
\<close>

datatype pyval = PyStr string | PyInt int | PyTuple "pyval list"

datatype py_error = ValueError pyval pyval | TypeError

subsection \<open>Rendering a value in an f-string\<close>

definition digit_char :: "nat \<Rightarrow> char" where
  "digit_char n = ''0123456789'' ! n"

fun str_nat :: "nat \<Rightarrow> string" where
  "str_nat n = (if n < 10 then [digit_char n] else str_nat (n div 10) @ [digit_char (n mod 10)])"

declare str_nat.simps [simp del]

definition str_int :: "int \<Rightarrow> string" where
  "str_int i = (if i < 0 then ''-'' @ str_nat (nat (- i)) else str_nat (nat i))"

definition hex_char :: "nat \<Rightarrow> char" where
  "hex_char n = ''0123456789abcdef'' ! n"

definition backslash :: char where
  "backslash = CHR 0x5C"

definition squote :: char where
  "squote = CHR 0x27"

definition dquote :: char where
  "dquote = CHR 0x22"

text \<open>\<^verbatim>\<open>repr\<close> of a string: the quote is the double quote only when the string holds a
  single quote and no double quote; the quote and the backslash are escaped, tab, newline
  and carriage return are written \<^verbatim>\<open>\t \n \r\<close>, and the other non-printable code points
  (below 32, 127, 128 to 160, 173) as \<^verbatim>\<open>\xhh\<close>.\<close>

definition repr_char :: "char \<Rightarrow> char \<Rightarrow> string" where
  "repr_char q c =
     (let n = (of_char c :: nat) in
      if c = q \<or> c = backslash then [backslash, c]
      else if n = 9 then [backslash, CHR ''t'']
      else if n = 10 then [backslash, CHR ''n'']
      else if n = 13 then [backslash, CHR ''r'']
      else if n < 32 \<or> n = 127 \<or> (128 \<le> n \<and> n \<le> 160) \<or> n = 173
        then [backslash, CHR ''x'', hex_char (n div 16), hex_char (n mod 16)]
      else [c])"

definition repr_str :: "string \<Rightarrow> string" where
  "repr_str s =
     (let q = (if squote \<in> set s \<and> dquote \<notin> set s then dquote else squote)
      in q # concat (map (repr_char q) s) @ [q])"

fun join :: "string \<Rightarrow> string list \<Rightarrow> string" where
  "join sep [] = []"
| "join sep [x] = x"
| "join sep (x # y # ys) = x @ sep @ join sep (y # ys)"

fun py_repr :: "pyval \<Rightarrow> string" where
  "py_repr (PyStr s) = repr_str s"
| "py_repr (PyInt i) = str_int i"
| "py_repr (PyTuple []) = ''()''"
| "py_repr (PyTuple [x]) = ''('' @ py_repr x @ '',)''"
| "py_repr (PyTuple (x # y # zs)) = ''('' @ join '', '' (map py_repr (x # y # zs)) @ '')''"

text \<open>\<^verbatim>\<open>f"{u}"\<close> is \<^verbatim>\<open>str(u)\<close>: a string is rendered as itself, everything else by its
  \<^verbatim>\<open>repr\<close>.\<close>

definition py_str :: "pyval \<Rightarrow> string" where
  "py_str v = (case v of PyStr s \<Rightarrow> s | _ \<Rightarrow> py_repr v)"

subsection \<open>The test \<^verbatim>\<open>"_split_" in u\<close>\<close>

definition split_marker :: string where
  "split_marker = ''_split_''"

text \<open>On a string the test is the substring test, on a tuple it is membership of the
  string \<^verbatim>\<open>"_split_"\<close>, and on an integer it raises \<^verbatim>\<open>TypeError\<close> (an \<^verbatim>\<open>int\<close> is not
  iterable).\<close>

fun marker_in :: "pyval \<Rightarrow> py_error + bool" where
  "marker_in (PyStr s) = Inr (sublist split_marker s)"
| "marker_in (PyInt i) = Inl TypeError"
| "marker_in (PyTuple xs) = Inr (PyStr split_marker \<in> set xs)"

text \<open>\<^verbatim>\<open>isinstance(x, str) and "_split_" in x\<close>, the guarded test of
  \<^verbatim>\<open>convert_original_to_split\<close>.\<close>

fun str_with_marker :: "pyval \<Rightarrow> bool" where
  "str_with_marker (PyStr s) = sublist split_marker s"
| "str_with_marker (PyInt i) = False"
| "str_with_marker (PyTuple xs) = False"

section \<open>The graphs\<close>

type_synonym attrs = "string \<rightharpoonup> pyval"

type_synonym edge_id = "pyval \<times> pyval \<times> pyval"

text \<open>The input \<^verbatim>\<open>nx.MultiDiGraph\<close>, as the two enumerations the builder reads:
  \<^verbatim>\<open>nodes(data=True)\<close> and \<^verbatim>\<open>edges(keys=True, data=True)\<close>, each in the order networkx
  yields it.\<close>

record multidigraph =
  mg_nodes :: "(pyval \<times> attrs) list"
  mg_edges :: "(pyval \<times> pyval \<times> pyval \<times> attrs) list"

text \<open>The \<^verbatim>\<open>nx.DiGraph\<close> the builder fills: the node dictionary and the edges, both in
  insertion order.\<close>

record digraph =
  dg_nodes :: "(pyval \<times> attrs) list"
  dg_edges :: "((pyval \<times> pyval) \<times> attrs) list"

definition empty_digraph :: digraph where
  "empty_digraph = \<lparr>dg_nodes = [], dg_edges = []\<rparr>"

definition has_node :: "digraph \<Rightarrow> pyval \<Rightarrow> bool" where
  "has_node g n = (n \<in> fst ` set (dg_nodes g))"

definition add_node :: "pyval \<Rightarrow> attrs \<Rightarrow> digraph \<Rightarrow> digraph" where
  "add_node n attr g =
     (case map_of (dg_nodes g) n of
        None \<Rightarrow> g\<lparr>dg_nodes := dg_nodes g @ [(n, attr)]\<rparr>
      | Some old \<Rightarrow> g\<lparr>dg_nodes := AList.update n (old ++ attr) (dg_nodes g)\<rparr>)"

definition add_nodes_from :: "(pyval \<times> attrs) list \<Rightarrow> digraph \<Rightarrow> digraph" where
  "add_nodes_from ns g = fold (\<lambda>(n, attr). add_node n attr) ns g"

definition has_edge :: "digraph \<Rightarrow> pyval \<Rightarrow> pyval \<Rightarrow> bool" where
  "has_edge g u v = ((u, v) \<in> fst ` set (dg_edges g))"

text \<open>\<^verbatim>\<open>add_edge(u, v, **attr)\<close> adds the endpoints that are not nodes yet, and merges
  \<^verbatim>\<open>attr\<close> into the data of an edge that exists already.\<close>

definition add_edge :: "pyval \<Rightarrow> pyval \<Rightarrow> attrs \<Rightarrow> digraph \<Rightarrow> digraph" where
  "add_edge u v attr g =
     (let g1 = (if has_node g u then g else add_node u Map.empty g);
          g2 = (if has_node g1 v then g1 else add_node v Map.empty g1)
      in case map_of (dg_edges g2) (u, v) of
           None \<Rightarrow> g2\<lparr>dg_edges := dg_edges g2 @ [((u, v), attr)]\<rparr>
         | Some old \<Rightarrow> g2\<lparr>dg_edges := AList.update (u, v) (old ++ attr) (dg_edges g2)\<rparr>)"

text \<open>\<^verbatim>\<open>edges(data=True)\<close>: node by node in node order, the out-edges of a node in the
  order they were added.\<close>

definition edges_view :: "digraph \<Rightarrow> ((pyval \<times> pyval) \<times> attrs) list" where
  "edges_view g = concat (map (\<lambda>(n, _). filter (\<lambda>((a, _), _). a = n) (dg_edges g)) (dg_nodes g))"

definition in_degree :: "digraph \<Rightarrow> pyval \<Rightarrow> nat" where
  "in_degree g n = length (filter (\<lambda>((_, b), _). b = n) (dg_edges g))"

definition out_degree :: "digraph \<Rightarrow> pyval \<Rightarrow> nat" where
  "out_degree g n = length (filter (\<lambda>((a, _), _). a = n) (dg_edges g))"

definition edge_data :: "digraph \<Rightarrow> pyval \<Rightarrow> pyval \<Rightarrow> attrs option" where
  "edge_data g u v = map_of (dg_edges g) (u, v)"

section \<open>The class \<^verbatim>\<open>MultiGraphDecomposer\<close>\<close>

record decomposer =
  original_graph :: multidigraph
  additional_starts :: "pyval list"
  additional_ends :: "pyval list"
  split_graph :: digraph
  edge_mapping :: "(pyval \<times> pyval) \<rightharpoonup> edge_id"
  reverse_edge_mapping :: "(pyval \<times> pyval) \<rightharpoonup> (pyval \<times> (pyval \<times> pyval)) list"

text \<open>\<^verbatim>\<open>reverse_edge_mapping\<close> is a \<^verbatim>\<open>defaultdict(dict)\<close>: reading a missing pair gives the
  empty dictionary. The inner dictionary is a list of entries, since the builder takes
  its \<^verbatim>\<open>len\<close>.\<close>

definition reverse_entries :: "decomposer \<Rightarrow> pyval \<times> pyval \<Rightarrow> (pyval \<times> (pyval \<times> pyval)) list" where
  "reverse_entries self p = (case reverse_edge_mapping self p of None \<Rightarrow> [] | Some d \<Rightarrow> d)"

text \<open>Line 44: \<^verbatim>\<open>f"{u}_{v}_split_{len(self.reverse_edge_mapping[(u, v)])}"\<close>.\<close>

definition split_node_name :: "pyval \<Rightarrow> pyval \<Rightarrow> nat \<Rightarrow> pyval" where
  "split_node_name u v n = PyStr (py_str u @ ''_'' @ py_str v @ split_marker @ str_nat n)"

text \<open>The body of the loop of \<^verbatim>\<open>_create_split_graph\<close> (lines 40 to 64).\<close>

fun process_edge :: "pyval \<times> pyval \<times> pyval \<times> attrs \<Rightarrow> decomposer \<Rightarrow> decomposer" where
  "process_edge (u, v, key, data) self =
     (if has_edge (split_graph self) u v then
        (let new_node = split_node_name u v (length (reverse_entries self (u, v)));
             g1 = add_node new_node Map.empty (split_graph self);
             g2 = add_edge u new_node data g1;
             em1 = (edge_mapping self)((u, new_node) \<mapsto> (u, v, key));
             rm1 = (reverse_edge_mapping self)
                     ((u, v) \<mapsto> AList.update key (u, new_node) (reverse_entries self (u, v)));
             zero_flow_data = data(''flow'' \<mapsto> PyInt 0);
             g3 = add_edge new_node v zero_flow_data g2;
             em2 = em1((new_node, v) \<mapsto> (u, v, key))
         in self\<lparr>split_graph := g3, edge_mapping := em2, reverse_edge_mapping := rm1\<rparr>)
      else
        self\<lparr>split_graph := add_edge u v data (split_graph self),
             edge_mapping := (edge_mapping self)((u, v) \<mapsto> (u, v, key)),
             reverse_edge_mapping := (reverse_edge_mapping self)
               ((u, v) \<mapsto> AList.update key (u, v) (reverse_entries self (u, v)))\<rparr>)"

definition start_build :: "decomposer \<Rightarrow> decomposer" where
  "start_build self =
     self\<lparr>split_graph := add_nodes_from (mg_nodes (original_graph self)) empty_digraph,
          edge_mapping := Map.empty,
          reverse_edge_mapping := Map.empty\<rparr>"

definition create_split_graph :: "decomposer \<Rightarrow> decomposer" where
  "create_split_graph self = fold process_edge (mg_edges (original_graph self)) (start_build self)"

text \<open>\<^verbatim>\<open>__init__\<close>.\<close>

definition init :: "multidigraph \<Rightarrow> pyval list \<Rightarrow> pyval list \<Rightarrow> decomposer" where
  "init G starts ends =
     create_split_graph
       \<lparr>original_graph = G, additional_starts = starts, additional_ends = ends,
        split_graph = empty_digraph, edge_mapping = Map.empty,
        reverse_edge_mapping = Map.empty\<rparr>"

definition get_digraph :: "decomposer \<Rightarrow> digraph" where
  "get_digraph self = split_graph self"

subsection \<open>\<^verbatim>\<open>convert_path_to_original\<close>\<close>

text \<open>The first loop (lines 82 to 93), over the consecutive pairs of the path.\<close>

fun collect_original :: "decomposer \<Rightarrow> pyval list \<Rightarrow> edge_id list \<Rightarrow> py_error + edge_id list" where
  "collect_original self (u # v # rest) original_path =
     (case edge_mapping self (u, v) of
        None \<Rightarrow> Inl (ValueError u v)
      | Some original_edge \<Rightarrow>
          (case marker_in u of
             Inl err \<Rightarrow> Inl err
           | Inr b \<Rightarrow>
               collect_original self (v # rest)
                 (if \<not> b then original_path @ [original_edge] else original_path)))"
| "collect_original self _ original_path = Inr original_path"

text \<open>The merge pass (lines 97 to 111). \<^verbatim>\<open>k1 == k2 and "_split_" in v1 and u2 == v1\<close>
  evaluates the test on \<^verbatim>\<open>v1\<close> only when the keys are equal.\<close>

fun simplify_path :: "edge_id list \<Rightarrow> edge_id list \<Rightarrow> py_error + edge_id list" where
  "simplify_path ((u1, v1, k1) # (u2, v2, k2) # rest) simplified_path =
     (if k1 = k2 then
        (case marker_in v1 of
           Inl err \<Rightarrow> Inl err
         | Inr b \<Rightarrow>
             if b \<and> u2 = v1 then simplify_path rest (simplified_path @ [(u1, v2, k1)])
             else simplify_path ((u2, v2, k2) # rest) (simplified_path @ [(u1, v1, k1)]))
      else simplify_path ((u2, v2, k2) # rest) (simplified_path @ [(u1, v1, k1)]))"
| "simplify_path [e] simplified_path = Inr (simplified_path @ [e])"
| "simplify_path [] simplified_path = Inr simplified_path"

definition convert_path_to_original :: "decomposer \<Rightarrow> pyval list \<Rightarrow> py_error + edge_id list" where
  "convert_path_to_original self path =
     (case collect_original self path [] of
        Inl err \<Rightarrow> Inl err
      | Inr original_path \<Rightarrow> simplify_path original_path [])"

subsection \<open>The single-edge conversions\<close>

definition convert_edge_to_original :: "decomposer \<Rightarrow> pyval \<times> pyval \<Rightarrow> edge_id option" where
  "convert_edge_to_original self edge = edge_mapping self edge"

fun convert_original_to_split :: "decomposer \<Rightarrow> edge_id \<Rightarrow> (pyval \<times> pyval) list" where
  "convert_original_to_split self (u, v, key) =
     (case reverse_edge_mapping self (u, v) of
        None \<Rightarrow> []
      | Some d \<Rightarrow>
          (case map_of d key of
             None \<Rightarrow> []
           | Some split_edge \<Rightarrow>
               if str_with_marker (snd split_edge)
               then [(u, snd split_edge), (snd split_edge, v)]
               else [split_edge]))"

subsection \<open>\<^verbatim>\<open>get_ignore_split_edges\<close>\<close>

fun ignore_loop :: "((pyval \<times> pyval) \<times> attrs) list \<Rightarrow> (pyval \<times> pyval) set \<Rightarrow> py_error + (pyval \<times> pyval) set" where
  "ignore_loop [] ignore_set = Inr ignore_set"
| "ignore_loop (((u, v), d) # es) ignore_set =
     (case marker_in u of
        Inl err \<Rightarrow> Inl err
      | Inr b \<Rightarrow> ignore_loop es (if b then insert (u, v) ignore_set else ignore_set))"

definition get_ignore_split_edges :: "decomposer \<Rightarrow> (pyval \<times> pyval) set \<Rightarrow> py_error + (pyval \<times> pyval) set" where
  "get_ignore_split_edges self edges_to_ignore = ignore_loop (edges_view (split_graph self)) edges_to_ignore"

section \<open>The scenario of the specification\<close>

definition flow_attr :: "int \<Rightarrow> attrs" where
  "flow_attr n = Map.empty(''flow'' \<mapsto> PyInt n)"

definition scenario_graph :: multidigraph where
  "scenario_graph =
     \<lparr>mg_nodes = [(PyStr ''A'', Map.empty), (PyStr ''B'', Map.empty), (PyStr ''C'', Map.empty)],
      mg_edges = [(PyStr ''A'', PyStr ''B'', PyStr ''k0'', flow_attr 5),
                  (PyStr ''A'', PyStr ''B'', PyStr ''k1'', flow_attr 3),
                  (PyStr ''B'', PyStr ''C'', PyStr ''k0'', flow_attr 5)]\<rparr>"

definition scenario :: decomposer where
  "scenario = init scenario_graph [] []"

definition scenario_built :: decomposer where
  "scenario_built =
     \<lparr>original_graph = scenario_graph, additional_starts = [], additional_ends = [],
      split_graph =
        \<lparr>dg_nodes = [(PyStr ''A'', Map.empty), (PyStr ''B'', Map.empty), (PyStr ''C'', Map.empty),
                     (PyStr ''A_B_split_1'', Map.empty)],
         dg_edges = [((PyStr ''A'', PyStr ''B''), flow_attr 5),
                     ((PyStr ''A'', PyStr ''A_B_split_1''), flow_attr 3),
                     ((PyStr ''A_B_split_1'', PyStr ''B''), flow_attr 0),
                     ((PyStr ''B'', PyStr ''C''), flow_attr 5)]\<rparr>,
      edge_mapping =
        [(PyStr ''A'', PyStr ''B'') \<mapsto> (PyStr ''A'', PyStr ''B'', PyStr ''k0''),
         (PyStr ''A'', PyStr ''A_B_split_1'') \<mapsto> (PyStr ''A'', PyStr ''B'', PyStr ''k1''),
         (PyStr ''A_B_split_1'', PyStr ''B'') \<mapsto> (PyStr ''A'', PyStr ''B'', PyStr ''k1''),
         (PyStr ''B'', PyStr ''C'') \<mapsto> (PyStr ''B'', PyStr ''C'', PyStr ''k0'')],
      reverse_edge_mapping =
        [(PyStr ''A'', PyStr ''B'') \<mapsto>
           [(PyStr ''k0'', (PyStr ''A'', PyStr ''B'')),
            (PyStr ''k1'', (PyStr ''A'', PyStr ''A_B_split_1''))],
         (PyStr ''B'', PyStr ''C'') \<mapsto> [(PyStr ''k0'', (PyStr ''B'', PyStr ''C''))]]\<rparr>"

section \<open>Auxiliary notions for the proofs\<close>

text \<open>The object after the builder has processed a prefix of the edge enumeration.\<close>

definition build_prefix :: "decomposer \<Rightarrow> (pyval \<times> pyval \<times> pyval \<times> attrs) list \<Rightarrow> decomposer" where
  "build_prefix self xs = fold process_edge xs (start_build self)"

text \<open>The specification's reading of \<^verbatim>\<open>pathToOriginal\<close> without the merge pass: look every
  consecutive pair up, fail on a missing one, and keep the original edge only when the
  source of the pair is not synthetic.\<close>

fun path_to_original_filter_only :: "decomposer \<Rightarrow> pyval list \<Rightarrow> py_error + edge_id list" where
  "path_to_original_filter_only self (u # v # rest) =
     (case edge_mapping self (u, v) of
        None \<Rightarrow> Inl (ValueError u v)
      | Some original_edge \<Rightarrow>
          (case marker_in u of
             Inl err \<Rightarrow> Inl err
           | Inr synthetic \<Rightarrow>
               (case path_to_original_filter_only self (v # rest) of
                  Inl err \<Rightarrow> Inl err
                | Inr kept \<Rightarrow> Inr (if synthetic then kept else original_edge # kept))))"
| "path_to_original_filter_only self _ = Inr []"

text \<open>The shape of a forward-map entry: the key is the original pair itself, or one of the
  two halves of a chain through a node the builder named.\<close>

fun entry_shape :: "pyval \<times> pyval \<Rightarrow> edge_id \<Rightarrow> bool" where
  "entry_shape (a, b) (u, v, k) =
     ((a, b) = (u, v) \<or>
      (\<exists>n. (a, b) = (u, split_node_name u v n) \<or> (a, b) = (split_node_name u v n, v)))"

definition forward_shape :: "decomposer \<Rightarrow> bool" where
  "forward_shape self = (\<forall>p oe. edge_mapping self p = Some oe \<longrightarrow> entry_shape p oe)"

definition plain_sources :: "edge_id list \<Rightarrow> bool" where
  "plain_sources xs = (\<forall>e \<in> set xs. marker_in (fst e) = Inr False)"

section \<open>Graphs with node identifiers that are not strings\<close>

definition int_graph :: multidigraph where
  "int_graph =
     \<lparr>mg_nodes = [(PyInt 1, Map.empty), (PyInt 2, Map.empty)],
      mg_edges = [(PyInt 1, PyInt 2, PyInt 0, flow_attr 5)]\<rparr>"

definition int_built :: decomposer where
  "int_built =
     \<lparr>original_graph = int_graph, additional_starts = [], additional_ends = [],
      split_graph =
        \<lparr>dg_nodes = [(PyInt 1, Map.empty), (PyInt 2, Map.empty)],
         dg_edges = [((PyInt 1, PyInt 2), flow_attr 5)]\<rparr>,
      edge_mapping = [(PyInt 1, PyInt 2) \<mapsto> (PyInt 1, PyInt 2, PyInt 0)],
      reverse_edge_mapping = [(PyInt 1, PyInt 2) \<mapsto> [(PyInt 0, (PyInt 1, PyInt 2))]]\<rparr>"



text \<open>The identity, the node pair and the key of an element of the edge enumeration, and
  the elements of a list of edges that join a given ordered pair.\<close>

definition edge_id_of :: "pyval \<times> pyval \<times> pyval \<times> attrs \<Rightarrow> edge_id" where
  "edge_id_of e = (fst e, fst (snd e), fst (snd (snd e)))"

definition edge_pair_of :: "pyval \<times> pyval \<times> pyval \<times> attrs \<Rightarrow> pyval \<times> pyval" where
  "edge_pair_of e = (fst e, fst (snd e))"

definition edge_key_of :: "pyval \<times> pyval \<times> pyval \<times> attrs \<Rightarrow> pyval" where
  "edge_key_of e = fst (snd (snd e))"

definition parallel :: "(pyval \<times> pyval \<times> pyval \<times> attrs) list \<Rightarrow> pyval \<times> pyval \<Rightarrow>
    (pyval \<times> pyval \<times> pyval \<times> attrs) list" where
  "parallel xs p = filter (\<lambda>e. edge_pair_of e = p) xs"

text \<open>The name line 44 computes in a given state, and the entry point the loop body
  records for the pair: the new node in the branch of a parallel edge, the target
  otherwise.\<close>

definition next_name :: "decomposer \<Rightarrow> pyval \<Rightarrow> pyval \<Rightarrow> pyval" where
  "next_name self u v = split_node_name u v (length (reverse_entries self (u, v)))"

definition entry_target :: "decomposer \<Rightarrow> pyval \<Rightarrow> pyval \<Rightarrow> pyval" where
  "entry_target self u v = (if has_edge (split_graph self) u v then next_name self u v else v)"

text \<open>The object before the builder runs, and the object at the moment the edge of
  index \<^verbatim>\<open>i\<close> of the enumeration is about to be processed.\<close>

definition blank :: "multidigraph \<Rightarrow> pyval list \<Rightarrow> pyval list \<Rightarrow> decomposer" where
  "blank G starts ends =
     \<lparr>original_graph = G, additional_starts = starts, additional_ends = ends,
      split_graph = empty_digraph, edge_mapping = Map.empty, reverse_edge_mapping = Map.empty\<rparr>"

definition state_before :: "multidigraph \<Rightarrow> pyval list \<Rightarrow> pyval list \<Rightarrow> nat \<Rightarrow> decomposer" where
  "state_before G starts ends i = build_prefix (blank G starts ends) (take i (mg_edges G))"

text \<open>The entry point recorded in the reverse map for an original edge, if any.\<close>

definition entry_point :: "decomposer \<Rightarrow> edge_id \<Rightarrow> pyval option" where
  "entry_point self e =
     (case reverse_edge_mapping self (fst e, fst (snd e)) of
        None \<Rightarrow> None
      | Some d \<Rightarrow> map_option snd (map_of d (snd (snd e))))"

text \<open>\<^verbatim>\<open>add_edge\<close> first makes both endpoints nodes.\<close>

definition with_endpoints :: "pyval \<Rightarrow> pyval \<Rightarrow> digraph \<Rightarrow> digraph" where
  "with_endpoints u v g =
     (let g1 = (if has_node g u then g else add_node u Map.empty g)
      in if has_node g1 v then g1 else add_node v Map.empty g1)"

text \<open>The part of a synthetic node's name that depends on the pair.\<close>

definition pair_prefix :: "pyval \<Rightarrow> pyval \<Rightarrow> string" where
  "pair_prefix u v = py_str u @ ''_'' @ py_str v"

section \<open>Conditions on the input graph\<close>

text \<open>A multigraph as networkx holds it: the node identifiers are distinct, the edge
  identities (source, target, key) are distinct, and every endpoint is a node.\<close>

definition node_ids :: "multidigraph \<Rightarrow> pyval set" where
  "node_ids G = fst ` set (mg_nodes G)"

definition well_formed :: "multidigraph \<Rightarrow> bool" where
  "well_formed G =
     (distinct (map fst (mg_nodes G)) \<and> distinct (map edge_id_of (mg_edges G)) \<and>
      (\<forall>e \<in> set (mg_edges G). fst e \<in> node_ids G \<and> fst (snd e) \<in> node_ids G))"

text \<open>No node identifier is a string that contains \<^verbatim>\<open>_split_\<close>; the stronger condition that
  the unguarded test \<^verbatim>\<open>"_split_" in n\<close> is defined and false on every node; distinct node
  identifiers render to distinct text; distinct node pairs joined by an edge render to
  distinct prefixes \<^verbatim>\<open>str(u)_str(v)\<close>.\<close>

definition marker_free :: "multidigraph \<Rightarrow> bool" where
  "marker_free G = (\<forall>n \<in> node_ids G. \<not> str_with_marker n)"

definition plain_nodes :: "multidigraph \<Rightarrow> bool" where
  "plain_nodes G = (\<forall>n \<in> node_ids G. marker_in n = Inr False)"

definition str_injective :: "multidigraph \<Rightarrow> bool" where
  "str_injective G = inj_on py_str (node_ids G)"

definition prefix_injective :: "multidigraph \<Rightarrow> bool" where
  "prefix_injective G =
     inj_on (\<lambda>p. pair_prefix (fst p) (snd p)) (edge_pair_of ` set (mg_edges G))"

text \<open>The same conditions on a list of edges: no endpoint is a string with the marker, and
  no two pairs that share an endpoint render to the same prefix.\<close>

definition endpoints_ok :: "(pyval \<times> pyval \<times> pyval \<times> attrs) list \<Rightarrow> bool" where
  "endpoints_ok xs = (\<forall>e \<in> set xs. \<not> str_with_marker (fst e) \<and> \<not> str_with_marker (fst (snd e)))"

definition clash :: "pyval \<times> pyval \<times> pyval \<times> attrs \<Rightarrow> pyval \<times> pyval \<times> pyval \<times> attrs \<Rightarrow> bool" where
  "clash e e' =
     (pair_prefix (fst e) (fst (snd e)) = pair_prefix (fst e') (fst (snd e')) \<and>
      (fst e = fst e' \<or> fst (snd e) = fst (snd e')) \<and> edge_pair_of e \<noteq> edge_pair_of e')"

definition clash_free :: "(pyval \<times> pyval \<times> pyval \<times> attrs) list \<Rightarrow> bool" where
  "clash_free xs = (\<forall>e \<in> set xs. \<forall>e' \<in> set xs. \<not> clash e e')"

text \<open>The keys of the two halves of the chains the builder has made for a list of edges, and
  the entry point it records for one more edge between u and v.\<close>

definition chain_key :: "(pyval \<times> pyval \<times> pyval \<times> attrs) list \<Rightarrow> pyval \<times> pyval \<Rightarrow> bool" where
  "chain_key xs p =
     (\<exists>u v n. 0 < n \<and> n < length (parallel xs (u, v)) \<and>
        (p = (u, split_node_name u v n) \<or> p = (split_node_name u v n, v)))"

definition expected_target :: "(pyval \<times> pyval \<times> pyval \<times> attrs) list \<Rightarrow> pyval \<Rightarrow> pyval \<Rightarrow> pyval" where
  "expected_target xs u v =
     (if parallel xs (u, v) = [] then v else split_node_name u v (length (parallel xs (u, v))))"

section \<open>A graph with a node identifier that contains the marker\<close>

definition marker_graph :: multidigraph where
  "marker_graph =
     \<lparr>mg_nodes = [(PyStr ''X'', Map.empty), (PyStr ''a_split_b'', Map.empty), (PyStr ''c'', Map.empty)],
      mg_edges = [(PyStr ''X'', PyStr ''a_split_b'', PyInt 0, flow_attr 5),
                  (PyStr ''a_split_b'', PyStr ''c'', PyInt 0, flow_attr 5)]\<rparr>"

definition marker_built :: decomposer where
  "marker_built =
     \<lparr>original_graph = marker_graph, additional_starts = [], additional_ends = [],
      split_graph =
        \<lparr>dg_nodes = [(PyStr ''X'', Map.empty), (PyStr ''a_split_b'', Map.empty), (PyStr ''c'', Map.empty)],
         dg_edges = [((PyStr ''X'', PyStr ''a_split_b''), flow_attr 5),
                     ((PyStr ''a_split_b'', PyStr ''c''), flow_attr 5)]\<rparr>,
      edge_mapping =
        [(PyStr ''X'', PyStr ''a_split_b'') \<mapsto> (PyStr ''X'', PyStr ''a_split_b'', PyInt 0),
         (PyStr ''a_split_b'', PyStr ''c'') \<mapsto> (PyStr ''a_split_b'', PyStr ''c'', PyInt 0)],
      reverse_edge_mapping =
        [(PyStr ''X'', PyStr ''a_split_b'') \<mapsto> [(PyInt 0, (PyStr ''X'', PyStr ''a_split_b''))],
         (PyStr ''a_split_b'', PyStr ''c'') \<mapsto> [(PyInt 0, (PyStr ''a_split_b'', PyStr ''c''))]]\<rparr>"

section \<open>Synthetic nodes and paths over the split graph\<close>

text \<open>A synthetic node is a node of the split graph that is not a node of the original
  graph.\<close>

definition is_synthetic :: "decomposer \<Rightarrow> pyval \<Rightarrow> bool" where
  "is_synthetic self n = (has_node (split_graph self) n \<and> n \<notin> node_ids (original_graph self))"

text \<open>Both endpoints of every edge of a graph are nodes of it; and the shape of a node of
  the split graph: an original node or a name the builder made.\<close>

definition nodes_closed :: "digraph \<Rightarrow> bool" where
  "nodes_closed g = (\<forall>p \<in> fst ` set (dg_edges g). has_node g (fst p) \<and> has_node g (snd p))"

definition node_shape :: "multidigraph \<Rightarrow> pyval \<Rightarrow> bool" where
  "node_shape G n = (n \<in> node_ids G \<or> (\<exists>u v m. n = split_node_name u v m))"

text \<open>The edges of the split graph whose source is a synthetic node.\<close>

definition synthetic_source_edges :: "decomposer \<Rightarrow> (pyval \<times> pyval) set" where
  "synthetic_source_edges self =
     set (filter (\<lambda>p. is_synthetic self (fst p)) (map fst (dg_edges (split_graph self))))"

text \<open>A node sequence follows a list of original edges when it goes through them one
  after the other, each (u, v, key) by the representation the builder recorded for it in the
  reverse map: the hop u, v when the recorded entry point is the target v, the two hops
  u, t, v when the recorded entry point is another node t.\<close>

fun follows :: "decomposer \<Rightarrow> pyval list \<Rightarrow> edge_id list \<Rightarrow> bool" where
  "follows self (n # x # rest) ((u, v, key) # es) =
     (n = u \<and>
      (case entry_point self (u, v, key) of
         None \<Rightarrow> False
       | Some t \<Rightarrow>
           if t = v then x = v \<and> follows self (x # rest) es
           else x = t \<and> rest \<noteq> [] \<and> hd rest = v \<and> follows self rest es))"
| "follows self [n] [] = True"
| "follows self [] [] = True"
| "follows self _ _ = False"

text \<open>The two mappings agree on an object: whenever the reverse map records an entry point
  t for (u, v, key), the forward map sends (u, t), and (t, v) when t is not v, to
  (u, v, key); and the marker test is defined on u, v and t, true on t alone when t is
  not v.\<close>

definition chain_sound :: "decomposer \<Rightarrow> bool" where
  "chain_sound self =
     (\<forall>u v key t. entry_point self (u, v, key) = Some t \<longrightarrow>
        edge_mapping self (u, t) = Some (u, v, key) \<and>
        marker_in u = Inr False \<and> marker_in v = Inr False \<and>
        (t \<noteq> v \<longrightarrow> edge_mapping self (t, v) = Some (u, v, key) \<and> marker_in t = Inr True))"

text \<open>The synthetic nodes of an ordered pair (u, v): the synthetic nodes n of the split graph
  with the edges u->n and n->v, in node order.\<close>

definition synthetic_between :: "decomposer \<Rightarrow> pyval \<Rightarrow> pyval \<Rightarrow> pyval list" where
  "synthetic_between self u v =
     filter (\<lambda>n. is_synthetic self n \<and> has_edge (split_graph self) u n \<and> has_edge (split_graph self) n v)
       (map fst (dg_nodes (split_graph self)))"

text \<open>Every edge that leaves a node whose name carries the marker has \<^verbatim>\<open>flow = 0\<close>.\<close>

definition zero_exits :: "digraph \<Rightarrow> bool" where
  "zero_exits g =
     (\<forall>n y a. str_with_marker n \<longrightarrow> edge_data g n y = Some a \<longrightarrow> a ''flow'' = Some (PyInt 0))"

section \<open>A graph with two pairs that render to the same prefix\<close>

text \<open>The pairs (A_B, C) and (A, B_C) both render to \<^verbatim>\<open>A_B_C\<close>; no node identifier contains
  the marker.\<close>

definition clash_graph :: multidigraph where
  "clash_graph =
     \<lparr>mg_nodes = [(PyStr ''A_B'', Map.empty), (PyStr ''C'', Map.empty),
                  (PyStr ''A'', Map.empty), (PyStr ''B_C'', Map.empty)],
      mg_edges = [(PyStr ''A_B'', PyStr ''C'', PyInt 0, flow_attr 5),
                  (PyStr ''A_B'', PyStr ''C'', PyInt 1, flow_attr 3),
                  (PyStr ''A'', PyStr ''B_C'', PyInt 0, flow_attr 5),
                  (PyStr ''A'', PyStr ''B_C'', PyInt 1, flow_attr 3)]\<rparr>"

definition clash_built :: decomposer where
  "clash_built =
     \<lparr>original_graph = clash_graph, additional_starts = [], additional_ends = [],
      split_graph =
        \<lparr>dg_nodes = [(PyStr ''A_B'', Map.empty), (PyStr ''C'', Map.empty),
                     (PyStr ''A'', Map.empty), (PyStr ''B_C'', Map.empty),
                     (PyStr ''A_B_C_split_1'', Map.empty)],
         dg_edges = [((PyStr ''A_B'', PyStr ''C''), flow_attr 5),
                     ((PyStr ''A_B'', PyStr ''A_B_C_split_1''), flow_attr 3),
                     ((PyStr ''A_B_C_split_1'', PyStr ''C''), flow_attr 0),
                     ((PyStr ''A'', PyStr ''B_C''), flow_attr 5),
                     ((PyStr ''A'', PyStr ''A_B_C_split_1''), flow_attr 3),
                     ((PyStr ''A_B_C_split_1'', PyStr ''B_C''), flow_attr 0)]\<rparr>,
      edge_mapping =
        [(PyStr ''A_B'', PyStr ''C'') \<mapsto> (PyStr ''A_B'', PyStr ''C'', PyInt 0),
         (PyStr ''A_B'', PyStr ''A_B_C_split_1'') \<mapsto> (PyStr ''A_B'', PyStr ''C'', PyInt 1),
         (PyStr ''A_B_C_split_1'', PyStr ''C'') \<mapsto> (PyStr ''A_B'', PyStr ''C'', PyInt 1),
         (PyStr ''A'', PyStr ''B_C'') \<mapsto> (PyStr ''A'', PyStr ''B_C'', PyInt 0),
         (PyStr ''A'', PyStr ''A_B_C_split_1'') \<mapsto> (PyStr ''A'', PyStr ''B_C'', PyInt 1),
         (PyStr ''A_B_C_split_1'', PyStr ''B_C'') \<mapsto> (PyStr ''A'', PyStr ''B_C'', PyInt 1)],
      reverse_edge_mapping =
        [(PyStr ''A_B'', PyStr ''C'') \<mapsto>
           [(PyInt 0, (PyStr ''A_B'', PyStr ''C'')),
            (PyInt 1, (PyStr ''A_B'', PyStr ''A_B_C_split_1''))],
         (PyStr ''A'', PyStr ''B_C'') \<mapsto>
           [(PyInt 0, (PyStr ''A'', PyStr ''B_C'')),
            (PyInt 1, (PyStr ''A'', PyStr ''A_B_C_split_1''))]]\<rparr>"

section \<open>A graph with two node identifiers that render to the same text\<close>

text \<open>The tuple \<^verbatim>\<open>(1,)\<close> and the string \<^verbatim>\<open>'(1,)'\<close> are distinct node identifiers that both
  render to \<^verbatim>\<open>(1,)\<close>; no node identifier contains the marker.\<close>

definition mix_graph :: multidigraph where
  "mix_graph =
     \<lparr>mg_nodes = [(PyStr ''a'', Map.empty), (PyTuple [PyInt 1], Map.empty),
                  (PyStr ''(1,)'', Map.empty)],
      mg_edges = [(PyStr ''a'', PyTuple [PyInt 1], PyInt 0, flow_attr 5),
                  (PyStr ''a'', PyTuple [PyInt 1], PyInt 1, flow_attr 3),
                  (PyStr ''a'', PyStr ''(1,)'', PyInt 0, flow_attr 5),
                  (PyStr ''a'', PyStr ''(1,)'', PyInt 1, flow_attr 4)]\<rparr>"

definition mix_built :: decomposer where
  "mix_built =
     \<lparr>original_graph = mix_graph, additional_starts = [], additional_ends = [],
      split_graph =
        \<lparr>dg_nodes = [(PyStr ''a'', Map.empty), (PyTuple [PyInt 1], Map.empty),
                     (PyStr ''(1,)'', Map.empty), (PyStr ''a_(1,)_split_1'', Map.empty)],
         dg_edges = [((PyStr ''a'', PyTuple [PyInt 1]), flow_attr 5),
                     ((PyStr ''a'', PyStr ''a_(1,)_split_1''), flow_attr 4),
                     ((PyStr ''a_(1,)_split_1'', PyTuple [PyInt 1]), flow_attr 0),
                     ((PyStr ''a'', PyStr ''(1,)''), flow_attr 5),
                     ((PyStr ''a_(1,)_split_1'', PyStr ''(1,)''), flow_attr 0)]\<rparr>,
      edge_mapping =
        [(PyStr ''a'', PyTuple [PyInt 1]) \<mapsto> (PyStr ''a'', PyTuple [PyInt 1], PyInt 0),
         (PyStr ''a'', PyStr ''a_(1,)_split_1'') \<mapsto> (PyStr ''a'', PyTuple [PyInt 1], PyInt 1),
         (PyStr ''a_(1,)_split_1'', PyTuple [PyInt 1]) \<mapsto> (PyStr ''a'', PyTuple [PyInt 1], PyInt 1),
         (PyStr ''a'', PyStr ''(1,)'') \<mapsto> (PyStr ''a'', PyStr ''(1,)'', PyInt 0),
         (PyStr ''a'', PyStr ''a_(1,)_split_1'') \<mapsto> (PyStr ''a'', PyStr ''(1,)'', PyInt 1),
         (PyStr ''a_(1,)_split_1'', PyStr ''(1,)'') \<mapsto> (PyStr ''a'', PyStr ''(1,)'', PyInt 1)],
      reverse_edge_mapping =
        [(PyStr ''a'', PyTuple [PyInt 1]) \<mapsto>
           [(PyInt 0, (PyStr ''a'', PyTuple [PyInt 1])),
            (PyInt 1, (PyStr ''a'', PyStr ''a_(1,)_split_1''))],
         (PyStr ''a'', PyStr ''(1,)'') \<mapsto>
           [(PyInt 0, (PyStr ''a'', PyStr ''(1,)'')),
            (PyInt 1, (PyStr ''a'', PyStr ''a_(1,)_split_1''))]]\<rparr>"

section \<open>Evaluating the operations on explicit graphs\<close>

lemma str_nat_digit: "n < 10 \<Longrightarrow> str_nat n = [digit_char n]"
  by (simp add: str_nat.simps)

lemma str_nat_1: "str_nat (Suc 0) = ''1''"
  by (simp add: str_nat.simps digit_char_def)

lemma add_node_rec:
  "add_node n a \<lparr>dg_nodes = ns, dg_edges = es\<rparr> =
     (case map_of ns n of
        None \<Rightarrow> \<lparr>dg_nodes = ns @ [(n, a)], dg_edges = es\<rparr>
      | Some old \<Rightarrow> \<lparr>dg_nodes = AList.update n (old ++ a) ns, dg_edges = es\<rparr>)"
  by (simp add: add_node_def split: option.splits)

lemma has_node_rec: "has_node \<lparr>dg_nodes = ns, dg_edges = es\<rparr> n = (n \<in> fst ` set ns)"
  by (simp add: has_node_def)

lemma has_edge_rec: "has_edge \<lparr>dg_nodes = ns, dg_edges = es\<rparr> u v = ((u, v) \<in> fst ` set es)"
  by (simp add: has_edge_def)

lemma add_edge_rec:
  "u \<in> fst ` set ns \<Longrightarrow> v \<in> fst ` set ns \<Longrightarrow>
   add_edge u v a \<lparr>dg_nodes = ns, dg_edges = es\<rparr> =
     (case map_of es (u, v) of
        None \<Rightarrow> \<lparr>dg_nodes = ns, dg_edges = es @ [((u, v), a)]\<rparr>
      | Some old \<Rightarrow> \<lparr>dg_nodes = ns, dg_edges = AList.update (u, v) (old ++ a) es\<rparr>)"
  by (simp add: add_edge_def has_node_def split: option.splits)

lemmas graph_ops = has_edge_rec add_edge_rec has_node_rec add_node_rec reverse_entries_def

lemma start_build_rec:
  "start_build \<lparr>original_graph = G, additional_starts = s, additional_ends = e,
                split_graph = g, edge_mapping = em, reverse_edge_mapping = rm\<rparr> =
   \<lparr>original_graph = G, additional_starts = s, additional_ends = e,
    split_graph = add_nodes_from (mg_nodes G) empty_digraph, edge_mapping = Map.empty,
    reverse_edge_mapping = Map.empty\<rparr>"
  by (simp add: start_build_def)

lemmas marker_eval = split_marker_def sublist_Cons_right

lemma scenario_eq: "scenario = scenario_built"
proof -
  have n: "split_node_name (PyStr ''A'') (PyStr ''B'') (Suc 0) = PyStr ''A_B_split_1''"
    by (simp add: split_node_name_def py_str_def split_marker_def str_nat_1)
  have z: "(flow_attr 3)(''flow'' \<mapsto> PyInt 0) = flow_attr 0"
    by (simp add: flow_attr_def)
  show ?thesis
    unfolding scenario_def init_def create_split_graph_def start_build_rec
    by (simp add: scenario_graph_def scenario_built_def add_nodes_from_def empty_digraph_def
        graph_ops n z Let_def)
qed

text \<open>
  Claim C1, as amended. In the scenario with nodes A, B, C and edges (A,B,k0,flow=5),
  (A,B,k1,flow=3), (B,C,k0,flow=5), processed in this order, the builder produces the
  edge A->B with flow 5 mapping to k0, the synthetic node \<^verbatim>\<open>A_B_split_1\<close> (the count of
  entries recorded for (A,B) is 1 when the second edge is processed), the edge
  A->A_B_split_1 with flow 3 mapping to k1, the edge A_B_split_1->B with flow 0 and the
  edge B->C with flow 5; \<^verbatim>\<open>convert_original_to_split\<close> of (A,B,k1) is the chain through
  A_B_split_1, the path A, A_B_split_1, B, C converts to (A,B,k1), (B,C,k0), and the
  expansion of the empty ignore set is the single edge A_B_split_1->B.
\<close>

theorem C1_scenario:
  "map fst (dg_nodes (split_graph scenario)) =
     [PyStr ''A'', PyStr ''B'', PyStr ''C'', PyStr ''A_B_split_1''] \<and>
   dg_edges (split_graph scenario) =
     [((PyStr ''A'', PyStr ''B''), flow_attr 5),
      ((PyStr ''A'', PyStr ''A_B_split_1''), flow_attr 3),
      ((PyStr ''A_B_split_1'', PyStr ''B''), flow_attr 0),
      ((PyStr ''B'', PyStr ''C''), flow_attr 5)] \<and>
   convert_edge_to_original scenario (PyStr ''A'', PyStr ''B'') =
     Some (PyStr ''A'', PyStr ''B'', PyStr ''k0'') \<and>
   convert_edge_to_original scenario (PyStr ''A'', PyStr ''A_B_split_1'') =
     Some (PyStr ''A'', PyStr ''B'', PyStr ''k1'') \<and>
   convert_original_to_split scenario (PyStr ''A'', PyStr ''B'', PyStr ''k1'') =
     [(PyStr ''A'', PyStr ''A_B_split_1''), (PyStr ''A_B_split_1'', PyStr ''B'')] \<and>
   convert_path_to_original scenario [PyStr ''A'', PyStr ''A_B_split_1'', PyStr ''B'', PyStr ''C''] =
     Inr [(PyStr ''A'', PyStr ''B'', PyStr ''k1''), (PyStr ''B'', PyStr ''C'', PyStr ''k0'')] \<and>
   get_ignore_split_edges scenario {} = Inr {(PyStr ''A_B_split_1'', PyStr ''B'')}"
  unfolding scenario_eq
  by (simp add: scenario_built_def convert_edge_to_original_def convert_path_to_original_def
      get_ignore_split_edges_def edges_view_def marker_eval)

text \<open>
  The scenario as the specification states it, with the node \<^verbatim>\<open>A_B_split_0\<close>, does not hold:
  no such node exists, the chain of (A,B,k1) is not the one through it, the path through it
  is rejected with the broken-mapping error, and the expanded ignore set is another one.
\<close>

theorem C1_counterexample:
  "\<not> has_node (split_graph scenario) (PyStr ''A_B_split_0'') \<and>
   convert_original_to_split scenario (PyStr ''A'', PyStr ''B'', PyStr ''k1'') \<noteq>
     [(PyStr ''A'', PyStr ''A_B_split_0''), (PyStr ''A_B_split_0'', PyStr ''B'')] \<and>
   convert_path_to_original scenario [PyStr ''A'', PyStr ''A_B_split_0'', PyStr ''B'', PyStr ''C''] =
     Inl (ValueError (PyStr ''A'') (PyStr ''A_B_split_0'')) \<and>
   get_ignore_split_edges scenario {} \<noteq> Inr {(PyStr ''A_B_split_0'', PyStr ''B'')}"
  unfolding scenario_eq
  by (simp add: scenario_built_def has_node_def convert_path_to_original_def
      get_ignore_split_edges_def edges_view_def marker_eval)

section \<open>The builder, prefix by prefix\<close>

lemma build_prefix_Nil: "build_prefix self [] = start_build self"
  by (simp add: build_prefix_def)

lemma build_prefix_snoc: "build_prefix self (xs @ [e]) = process_edge e (build_prefix self xs)"
  by (simp add: build_prefix_def)

lemma create_split_graph_prefix:
  "create_split_graph self = build_prefix self (mg_edges (original_graph self))"
  by (simp add: create_split_graph_def build_prefix_def)

lemma sublist_in_name: "sublist m (a @ b @ c @ m @ d)"
  unfolding sublist_def by (rule exI[of _ "a @ b @ c"], rule exI[of _ d]) simp

lemma marker_in_name [simp]: "marker_in (split_node_name u v n) = Inr True"
  unfolding split_node_name_def marker_in.simps by (simp only: sublist_in_name)

lemma str_with_marker_name [simp]: "str_with_marker (split_node_name u v n)"
  unfolding split_node_name_def str_with_marker.simps by (simp only: sublist_in_name)

lemma marker_in_error: "marker_in u = Inl err \<Longrightarrow> err = TypeError"
  by (cases u) auto

lemma edge_mapping_process:
  "edge_mapping (process_edge (u, v, key, d) self) =
     (if has_edge (split_graph self) u v
      then (edge_mapping self)
             ((u, split_node_name u v (length (reverse_entries self (u, v)))) \<mapsto> (u, v, key),
              (split_node_name u v (length (reverse_entries self (u, v))), v) \<mapsto> (u, v, key))
      else (edge_mapping self)((u, v) \<mapsto> (u, v, key)))"
  by (simp add: Let_def)

lemma entry_shape_direct: "entry_shape (u, v) (u, v, k)"
  by simp

lemma entry_shape_first: "entry_shape (u, split_node_name u v n) (u, v, k)"
  by auto

lemma entry_shape_second: "entry_shape (split_node_name u v n, v) (u, v, k)"
  by auto

lemma forward_shape_process:
  assumes fs: "forward_shape self"
  shows "forward_shape (process_edge e self)"
proof -
  obtain u v key d where e: "e = (u, v, key, d)" by (cases e) auto
  show ?thesis
    unfolding forward_shape_def e edge_mapping_process
    using fs entry_shape_direct entry_shape_first entry_shape_second
    by (auto simp: forward_shape_def simp del: entry_shape.simps split: if_splits)
qed

lemma forward_shape_start: "forward_shape (start_build self)"
  by (simp add: forward_shape_def start_build_def)

lemma forward_shape_prefix: "forward_shape (build_prefix self xs)"
  by (induction xs rule: rev_induct)
     (simp_all add: build_prefix_Nil build_prefix_snoc forward_shape_start forward_shape_process)

lemma forward_shape_init: "forward_shape (init G starts ends)"
  by (simp add: init_def create_split_graph_prefix forward_shape_prefix)

lemma forward_source:
  assumes "forward_shape self" "edge_mapping self (a, b) = Some (u, v, k)" "marker_in a = Inr False"
  shows "u = a"
proof -
  have "entry_shape (a, b) (u, v, k)" using assms(1,2) by (simp add: forward_shape_def)
  then show ?thesis using assms(3) by auto
qed

lemma collect_plain:
  "forward_shape self \<Longrightarrow> collect_original self path acc = Inr r \<Longrightarrow> plain_sources acc \<Longrightarrow>
   plain_sources r"
proof (induction self path acc rule: collect_original.induct)
  case (1 self u v rest original_path)
  note fs = "1.prems"(1)
  from "1.prems"(2) obtain oe b where oe: "edge_mapping self (u, v) = Some oe"
    and b: "marker_in u = Inr b"
    by (auto split: option.splits sum.splits)
  obtain u' v' k' where oe': "oe = (u', v', k')" by (cases oe) auto
  have "plain_sources (if \<not> b then original_path @ [oe] else original_path)"
  proof (cases b)
    case True then show ?thesis using "1.prems"(3) by simp
  next
    case False
    then have "u' = u" using forward_source[OF fs oe[unfolded oe']] b by simp
    then show ?thesis using False b "1.prems"(3) by (simp add: plain_sources_def oe')
  qed
  then show ?case using "1.IH"[OF oe b fs] "1.prems"(2) oe b by simp
qed (simp_all add: plain_sources_def)


lemma simplify_plain:
  "plain_sources xs \<Longrightarrow> simplify_path xs acc = Inr r \<Longrightarrow> r = acc @ xs"
proof (induction xs acc rule: simplify_path.induct)
  case (1 u1 v1 k1 u2 v2 k2 rest simplified_path)
  have u2: "marker_in u2 = Inr False"
    using "1.prems"(1) by (simp add: plain_sources_def)
  have rest: "plain_sources ((u2, v2, k2) # rest)"
    using "1.prems"(1) by (simp add: plain_sources_def)
  show ?case
  proof (cases "k1 = k2")
    case True
    then obtain b where b: "marker_in v1 = Inr b"
      using "1.prems"(2) by (auto split: sum.splits)
    have no_merge: "\<not> (b \<and> u2 = v1)"
      using b u2 by auto
    have "simplify_path ((u2, v2, k2) # rest) (simplified_path @ [(u1, v1, k1)]) = Inr r"
      using "1.prems"(2) True b no_merge by auto
    from "1.IH"(2)[OF True b no_merge rest this] show ?thesis by simp
  next
    case False
    have "simplify_path ((u2, v2, k2) # rest) (simplified_path @ [(u1, v1, k1)]) = Inr r"
      using "1.prems"(2) False by simp
    from "1.IH"(3)[OF False rest this] show ?thesis by simp
  qed
qed auto

lemma collect_filter_only:
  "collect_original self path acc =
     (case path_to_original_filter_only self path of
        Inl err \<Rightarrow> Inl err
      | Inr kept \<Rightarrow> Inr (acc @ kept))"
  by (induction self path acc rule: collect_original.induct)
     (auto split: option.splits sum.splits)

text \<open>
  Claim C4. For every node sequence that \<^verbatim>\<open>convert_path_to_original\<close> accepts without error
  on a built decomposer, the merge pass never fires: the result is the list the source
  filter collected, that is, the result of the filter-only reading of the operation.
\<close>

theorem C4_merge_pass_never_fires:
  assumes "convert_path_to_original (init G starts ends) path = Inr r"
  shows "path_to_original_filter_only (init G starts ends) path = Inr r"
proof -
  from assms obtain xs where xs: "collect_original (init G starts ends) path [] = Inr xs"
    and r: "simplify_path xs [] = Inr r"
    by (auto simp: convert_path_to_original_def split: sum.splits)
  have "plain_sources xs"
    using collect_plain[OF forward_shape_init xs] by (simp add: plain_sources_def)
  from simplify_plain[OF this r] have "r = xs" by simp
  with xs show ?thesis
    by (auto simp: collect_filter_only split: sum.splits)
qed

theorem C4_witness:
  "convert_path_to_original (init scenario_graph [] [])
     [PyStr ''A'', PyStr ''A_B_split_1'', PyStr ''B'', PyStr ''C''] =
     Inr [(PyStr ''A'', PyStr ''B'', PyStr ''k1''), (PyStr ''B'', PyStr ''C'', PyStr ''k0'')] \<and>
   path_to_original_filter_only (init scenario_graph [] [])
     [PyStr ''A'', PyStr ''A_B_split_1'', PyStr ''B'', PyStr ''C''] =
     Inr [(PyStr ''A'', PyStr ''B'', PyStr ''k1''), (PyStr ''B'', PyStr ''C'', PyStr ''k0'')]"
proof -
  have h: "convert_path_to_original (init scenario_graph [] [])
     [PyStr ''A'', PyStr ''A_B_split_1'', PyStr ''B'', PyStr ''C''] =
     Inr [(PyStr ''A'', PyStr ''B'', PyStr ''k1''), (PyStr ''B'', PyStr ''C'', PyStr ''k0'')]"
    unfolding scenario_def[symmetric] scenario_eq
    by (simp add: scenario_built_def convert_path_to_original_def marker_eval)
  show ?thesis using h C4_merge_pass_never_fires[OF h] by simp
qed

section \<open>Node identifiers that are not strings\<close>

lemmas build_eval = init_def create_split_graph_def start_build_rec add_nodes_from_def
  empty_digraph_def graph_ops Let_def

lemma int_eq: "init int_graph [] [] = int_built"
  by (simp add: build_eval int_graph_def int_built_def)



text \<open>
  Claim C6 at a graph with integer node identifiers: the only consecutive pair of the path
  1, 2 is mapped, and the conversion raises \<^verbatim>\<open>TypeError\<close>; on the path 1, 2, 3 the pair (2,3)
  is unmapped, and the error raised is again \<^verbatim>\<open>TypeError\<close>, not the broken-mapping error.
\<close>

theorem C6_type_error_on_mapped_path:
  "convert_edge_to_original (init int_graph [] []) (PyInt 1, PyInt 2) = Some (PyInt 1, PyInt 2, PyInt 0) \<and>
   convert_path_to_original (init int_graph [] []) [PyInt 1, PyInt 2] = Inl TypeError \<and>
   convert_edge_to_original (init int_graph [] []) (PyInt 2, PyInt 3) = None \<and>
   convert_path_to_original (init int_graph [] []) [PyInt 1, PyInt 2, PyInt 3] = Inl TypeError"
  unfolding int_eq
  by (simp add: int_built_def convert_edge_to_original_def convert_path_to_original_def)




section \<open>The operations of the split graph\<close>

lemma edges_add_node [simp]: "dg_edges (add_node n a g) = dg_edges g"
  by (simp add: add_node_def split: option.splits)

lemma node_keys_add_node:
  "map fst (dg_nodes (add_node n a g)) =
     (if n \<in> set (map fst (dg_nodes g)) then map fst (dg_nodes g) else map fst (dg_nodes g) @ [n])"
proof (cases "map_of (dg_nodes g) n")
  case None
  then have "n \<notin> fst ` set (dg_nodes g)" by (simp add: map_of_eq_None_iff)
  then show ?thesis using None by (simp add: add_node_def)
next
  case (Some old)
  then have "n \<in> fst ` set (dg_nodes g)" by (metis map_of_eq_None_iff option.distinct(1))
  then show ?thesis using Some by (simp add: add_node_def update_keys)
qed

lemma node_set_add_node [simp]:
  "fst ` set (dg_nodes (add_node n a g)) = insert n (fst ` set (dg_nodes g))"
proof -
  have "set (map fst (dg_nodes (add_node n a g))) = insert n (set (map fst (dg_nodes g)))"
    unfolding node_keys_add_node by auto
  then show ?thesis by simp
qed

lemma distinct_add_node:
  "distinct (map fst (dg_nodes g)) \<Longrightarrow> distinct (map fst (dg_nodes (add_node n a g)))"
  by (simp add: node_keys_add_node)

lemma edges_with_endpoints [simp]: "dg_edges (with_endpoints u v g) = dg_edges g"
  by (simp add: with_endpoints_def Let_def)

lemma node_keys_with_endpoints:
  "map fst (dg_nodes (with_endpoints u v g)) =
     (let ns = map fst (dg_nodes g);
          ns1 = (if u \<in> set ns then ns else ns @ [u])
      in if v \<in> set ns1 then ns1 else ns1 @ [v])"
  by (auto simp: with_endpoints_def Let_def has_node_def node_keys_add_node)

lemma add_edge_alt:
  "add_edge u v a g =
     (case map_of (dg_edges g) (u, v) of
        None \<Rightarrow> (with_endpoints u v g)\<lparr>dg_edges := dg_edges g @ [((u, v), a)]\<rparr>
      | Some old \<Rightarrow> (with_endpoints u v g)\<lparr>dg_edges := AList.update (u, v) (old ++ a) (dg_edges g)\<rparr>)"
  by (simp add: add_edge_def with_endpoints_def Let_def split: option.splits)

lemma edge_keys_add_edge:
  "map fst (dg_edges (add_edge u v a g)) =
     (if (u, v) \<in> set (map fst (dg_edges g)) then map fst (dg_edges g)
      else map fst (dg_edges g) @ [(u, v)])"
proof (cases "map_of (dg_edges g) (u, v)")
  case None
  then have "(u, v) \<notin> fst ` set (dg_edges g)" by (simp add: map_of_eq_None_iff)
  then show ?thesis using None by (simp add: add_edge_alt)
next
  case (Some old)
  then have "(u, v) \<in> fst ` set (dg_edges g)" by (metis map_of_eq_None_iff option.distinct(1))
  then show ?thesis using Some by (simp add: add_edge_alt update_keys)
qed

lemma map_of_add_edge:
  "map_of (dg_edges (add_edge u v a g)) =
     (map_of (dg_edges g))
       ((u, v) \<mapsto> (case map_of (dg_edges g) (u, v) of None \<Rightarrow> a | Some old \<Rightarrow> old ++ a))"
proof (cases "map_of (dg_edges g) (u, v)")
  case None
  have "[(u, v) \<mapsto> a] ++ map_of (dg_edges g) = (map_of (dg_edges g))((u, v) \<mapsto> a)"
    using None by (auto simp: map_add_def fun_eq_iff split: option.splits)
  then show ?thesis using None by (simp add: add_edge_alt)
next
  case (Some old)
  then show ?thesis by (simp add: add_edge_alt update_conv')
qed

lemma node_keys_add_edge:
  "map fst (dg_nodes (add_edge u v a g)) = map fst (dg_nodes (with_endpoints u v g))"
  by (simp add: add_edge_alt split: option.splits)

lemma node_set_add_edge [simp]:
  "fst ` set (dg_nodes (add_edge u v a g)) = insert u (insert v (fst ` set (dg_nodes g)))"
proof -
  have "set (map fst (dg_nodes (add_edge u v a g))) = insert u (insert v (set (map fst (dg_nodes g))))"
    unfolding node_keys_add_edge node_keys_with_endpoints by (auto simp: Let_def)
  then show ?thesis by simp
qed

lemma distinct_nodes_add_edge:
  "distinct (map fst (dg_nodes g)) \<Longrightarrow> distinct (map fst (dg_nodes (add_edge u v a g)))"
  by (auto simp: node_keys_add_edge node_keys_with_endpoints Let_def)

lemma distinct_edges_add_edge:
  "distinct (map fst (dg_edges g)) \<Longrightarrow> distinct (map fst (dg_edges (add_edge u v a g)))"
  by (simp add: edge_keys_add_edge)

lemma has_edge_keys: "has_edge g u v = ((u, v) \<in> set (map fst (dg_edges g)))"
  by (simp add: has_edge_def)


subsection \<open>One step of the builder\<close>

lemma init_prefix: "init G starts ends = build_prefix (blank G starts ends) (mg_edges G)"
  by (simp add: init_def create_split_graph_prefix blank_def)

lemma split_graph_process:
  "split_graph (process_edge (u, v, key, d) self) =
     (if has_edge (split_graph self) u v
      then add_edge (next_name self u v) v (d(''flow'' \<mapsto> PyInt 0))
             (add_edge u (next_name self u v) d
                (add_node (next_name self u v) Map.empty (split_graph self)))
      else add_edge u v d (split_graph self))"
  by (simp add: Let_def next_name_def)

lemma edge_mapping_process':
  "edge_mapping (process_edge (u, v, key, d) self) =
     (if has_edge (split_graph self) u v
      then (edge_mapping self)
             ((u, next_name self u v) \<mapsto> (u, v, key), (next_name self u v, v) \<mapsto> (u, v, key))
      else (edge_mapping self)((u, v) \<mapsto> (u, v, key)))"
  unfolding next_name_def by (rule edge_mapping_process)

lemma reverse_mapping_process:
  "reverse_edge_mapping (process_edge (u, v, key, d) self) =
     (reverse_edge_mapping self)
       ((u, v) \<mapsto> AList.update key (u, entry_target self u v) (reverse_entries self (u, v)))"
  by (simp add: Let_def entry_target_def next_name_def)

lemma reverse_entries_process:
  "reverse_entries (process_edge (u, v, key, d) self) p =
     (if p = (u, v) then AList.update key (u, entry_target self u v) (reverse_entries self (u, v))
      else reverse_entries self p)"
  unfolding reverse_entries_def[of "process_edge (u, v, key, d) self"] reverse_mapping_process
  by (simp add: reverse_entries_def)

lemma original_graph_process [simp]: "original_graph (process_edge e self) = original_graph self"
  by (cases e) (simp add: Let_def)

declare process_edge.simps [simp del]

lemma original_graph_prefix [simp]: "original_graph (build_prefix self xs) = original_graph self"
  by (induction xs rule: rev_induct) (simp_all add: build_prefix_Nil build_prefix_snoc start_build_def)

lemma reverse_entries_start [simp]: "reverse_entries (start_build self) p = []"
  by (simp add: reverse_entries_def start_build_def)

lemma edge_mapping_start [simp]: "edge_mapping (start_build self) = Map.empty"
  by (simp add: start_build_def)

lemma edges_add_nodes_from: "dg_edges (add_nodes_from ns g) = dg_edges g"
  unfolding add_nodes_from_def by (induction ns arbitrary: g) auto

lemma node_set_add_nodes_from:
  "fst ` set (dg_nodes (add_nodes_from ns g)) = fst ` set ns \<union> fst ` set (dg_nodes g)"
  unfolding add_nodes_from_def
proof (induction ns arbitrary: g)
  case Nil
  then show ?case by simp
next
  case (Cons x ns)
  obtain n a where x: "x = (n, a)" by (cases x) auto
  show ?case unfolding x by (simp add: Cons.IH)
qed

lemma distinct_add_nodes_from:
  "distinct (map fst (dg_nodes g)) \<Longrightarrow> distinct (map fst (dg_nodes (add_nodes_from ns g)))"
  unfolding add_nodes_from_def by (induction ns arbitrary: g) (auto simp: distinct_add_node)

lemma edges_start [simp]: "dg_edges (split_graph (start_build self)) = []"
  by (simp add: start_build_def edges_add_nodes_from empty_digraph_def)

lemma node_set_start [simp]:
  "fst ` set (dg_nodes (split_graph (start_build self))) = fst ` set (mg_nodes (original_graph self))"
  by (simp add: start_build_def node_set_add_nodes_from empty_digraph_def)

lemma distinct_nodes_start:
  "distinct (map fst (dg_nodes (split_graph (start_build self))))"
  by (simp add: start_build_def distinct_add_nodes_from empty_digraph_def)

subsection \<open>The keys recorded for a pair\<close>

lemma parallel_snoc:
  "parallel (xs @ [e]) p = (if edge_pair_of e = p then parallel xs p @ [e] else parallel xs p)"
  by (simp add: parallel_def)

lemma parallel_Nil [simp]: "parallel [] p = []"
  by (simp add: parallel_def)

lemma key_fresh:
  assumes "distinct (map edge_id_of (xs @ [e]))"
  shows "edge_key_of e \<notin> set (map edge_key_of (parallel xs (edge_pair_of e)))"
proof
  assume "edge_key_of e \<in> set (map edge_key_of (parallel xs (edge_pair_of e)))"
  then obtain e' where e': "e' \<in> set xs" "edge_pair_of e' = edge_pair_of e" "edge_key_of e' = edge_key_of e"
    by (auto simp: parallel_def)
  then have "edge_id_of e' = edge_id_of e"
    by (simp add: edge_id_of_def edge_pair_of_def edge_key_of_def)
  moreover have "edge_id_of e \<notin> edge_id_of ` set xs" using assms by simp
  ultimately show False using e'(1) by (metis imageI)
qed

lemma reverse_keys:
  "distinct (map edge_id_of xs) \<Longrightarrow>
   map fst (reverse_entries (build_prefix self xs) p) = map edge_key_of (parallel xs p)"
proof (induction xs arbitrary: p rule: rev_induct)
  case Nil
  then show ?case by (simp add: build_prefix_Nil)
next
  case (snoc e xs)
  obtain u v key d where e: "e = (u, v, key, d)" by (cases e) auto
  have d: "distinct (map edge_id_of xs)" using snoc.prems by simp
  have fresh: "key \<notin> set (map edge_key_of (parallel xs (u, v)))"
    using key_fresh[OF snoc.prems] by (simp add: e edge_key_of_def edge_pair_of_def)
  show ?case
  proof (cases "p = (u, v)")
    case True
    then show ?thesis
      using fresh snoc.IH[OF d, of "(u, v)"]
      by (simp add: build_prefix_snoc e reverse_entries_process update_keys parallel_snoc
          edge_pair_of_def edge_key_of_def)
  next
    case False
    then show ?thesis
      using snoc.IH[OF d, of p]
      by (auto simp: build_prefix_snoc e reverse_entries_process parallel_snoc edge_pair_of_def)
  qed
qed

lemma reverse_count:
  "distinct (map edge_id_of xs) \<Longrightarrow>
   length (reverse_entries (build_prefix self xs) p) = length (parallel xs p)"
  using reverse_keys[of xs self p] by (metis length_map)


subsection \<open>Names of synthetic nodes\<close>

lemma digit_char_inj: "a < 10 \<Longrightarrow> b < 10 \<Longrightarrow> digit_char a = digit_char b \<Longrightarrow> a = b"
proof -
  assume a: "a < 10" and b: "b < 10" and eq: "digit_char a = digit_char b"
  have d: "distinct ''0123456789''" by simp
  have "a < length ''0123456789''" "b < length ''0123456789''" using a b by simp_all
  with d eq show "a = b" unfolding digit_char_def by (simp only: nth_eq_iff_index_eq)
qed

lemma digit_char_no_underscore: "n < 10 \<Longrightarrow> digit_char n \<noteq> CHR ''_''"
proof -
  assume "n < 10"
  then have "n < length ''0123456789''" by simp
  then have "''0123456789'' ! n \<in> set ''0123456789''" by (rule nth_mem)
  then show ?thesis unfolding digit_char_def by auto
qed

lemma str_nat_nonempty: "str_nat n \<noteq> []"
  by (subst str_nat.simps) simp

lemma str_nat_no_underscore: "CHR ''_'' \<notin> set (str_nat n)"
proof (induction n rule: str_nat.induct)
  case (1 n)
  show ?case
  proof (cases "n < 10")
    case True
    then show ?thesis using digit_char_no_underscore[of n] by (subst str_nat.simps) auto
  next
    case False
    have "n mod 10 < 10" by simp
    then have "digit_char (n mod 10) \<noteq> CHR ''_''" by (rule digit_char_no_underscore)
    then show ?thesis using False "1.IH" by (subst str_nat.simps) auto
  qed
qed

lemma str_nat_inj: "str_nat n = str_nat m \<Longrightarrow> n = m"
proof (induction n arbitrary: m rule: str_nat.induct)
  case (1 n)
  show ?case
  proof (cases "n < 10")
    case n: True
    show ?thesis
    proof (cases "m < 10")
      case True
      then show ?thesis using n "1.prems" digit_char_inj by (simp add: str_nat_digit)
    next
      case False
      then have "str_nat m = str_nat (m div 10) @ [digit_char (m mod 10)]"
        by (subst str_nat.simps) simp
      then have "length (str_nat m) \<ge> 2"
        using str_nat_nonempty[of "m div 10"] by (cases "str_nat (m div 10)") auto
      moreover have "length (str_nat m) = 1"
        using n "1.prems" by (metis length_Cons list.size(3) One_nat_def str_nat_digit)
      ultimately show ?thesis by simp
    qed
  next
    case n: False
    then have sn: "str_nat n = str_nat (n div 10) @ [digit_char (n mod 10)]"
      by (subst str_nat.simps) simp
    show ?thesis
    proof (cases "m < 10")
      case True
      have "length (str_nat n) \<ge> 2"
        using sn str_nat_nonempty[of "n div 10"] by (cases "str_nat (n div 10)") auto
      moreover have "length (str_nat n) = 1"
        using True "1.prems" by (metis length_Cons list.size(3) One_nat_def str_nat_digit)
      ultimately show ?thesis by simp
    next
      case False
      then have sm: "str_nat m = str_nat (m div 10) @ [digit_char (m mod 10)]"
        by (subst str_nat.simps) simp
      from "1.prems" sn sm have a: "str_nat (n div 10) = str_nat (m div 10)"
        and b: "digit_char (n mod 10) = digit_char (m mod 10)" by simp_all
      from "1.IH"[OF n a] have q: "n div 10 = m div 10" .
      have r: "n mod 10 = m mod 10" using b digit_char_inj[of "n mod 10" "m mod 10"] by simp
      from q r show ?thesis by (metis div_mult_mod_eq)
    qed
  qed
qed

lemma split_at_last:
  assumes "x \<notin> set ys" "x \<notin> set ys'" "xs @ x # ys = xs' @ x # ys'"
  shows "xs = xs' \<and> ys = ys'"
proof -
  from assms(3) have "rev (xs @ x # ys) = rev (xs' @ x # ys')" by simp
  then have e: "rev ys @ x # rev xs = rev ys' @ x # rev xs'" by simp
  have "takeWhile (\<lambda>c. c \<noteq> x) (rev ys @ x # rev xs) = rev ys"
    using assms(1) by (auto simp: takeWhile_tail)
  moreover have "takeWhile (\<lambda>c. c \<noteq> x) (rev ys' @ x # rev xs') = rev ys'"
    using assms(2) by (auto simp: takeWhile_tail)
  ultimately have "rev ys = rev ys'" using e by simp
  then have "ys = ys'" by simp
  with assms(3) show ?thesis by simp
qed

lemma split_node_name_alt:
  "split_node_name u v n = PyStr ((pair_prefix u v @ ''_split'') @ CHR ''_'' # str_nat n)"
  by (simp add: split_node_name_def pair_prefix_def split_marker_def)

lemma split_node_name_eq:
  "split_node_name u v n = split_node_name u' v' m \<longleftrightarrow> pair_prefix u v = pair_prefix u' v' \<and> n = m"
proof
  assume "split_node_name u v n = split_node_name u' v' m"
  then have "(pair_prefix u v @ ''_split'') @ CHR ''_'' # str_nat n =
             (pair_prefix u' v' @ ''_split'') @ CHR ''_'' # str_nat m"
    unfolding split_node_name_alt by simp
  from split_at_last[OF str_nat_no_underscore str_nat_no_underscore this]
  show "pair_prefix u v = pair_prefix u' v' \<and> n = m" using str_nat_inj by auto
next
  assume "pair_prefix u v = pair_prefix u' v' \<and> n = m"
  then show "split_node_name u v n = split_node_name u' v' m" by (simp add: split_node_name_alt)
qed

lemma split_node_name_inj: "split_node_name u v n = split_node_name u v m \<longleftrightarrow> n = m"
  by (simp add: split_node_name_eq)

lemma not_marker_not_name: "\<not> str_with_marker x \<Longrightarrow> x \<noteq> split_node_name u v n"
  using str_with_marker_name by auto

lemma py_str_shorter: "py_str v \<noteq> py_str u @ ''_'' @ py_str v @ rest"
proof
  assume "py_str v = py_str u @ ''_'' @ py_str v @ rest"
  then have "length (py_str v) = length (py_str u @ ''_'' @ py_str v @ rest)" by simp
  then show False by simp
qed

lemma target_not_name: "v \<noteq> split_node_name u v n"
proof
  assume a: "v = split_node_name u v n"
  then obtain s where s: "v = PyStr s" by (simp add: split_node_name_def)
  from a have "PyStr (py_str v) = split_node_name u v n" by (simp add: s py_str_def)
  then show False using py_str_shorter[of v u] by (simp add: split_node_name_def)
qed

subsection \<open>The entry recorded for an edge\<close>

lemma has_edge_add_edge:
  "has_edge (add_edge u v a g) x y \<longleftrightarrow> (x, y) = (u, v) \<or> has_edge g x y"
  by (auto simp: has_edge_keys edge_keys_add_edge)

lemma has_edge_add_node [simp]: "has_edge (add_node n a g) x y = has_edge g x y"
  by (simp add: has_edge_def)

lemma has_edge_process:
  "has_edge (split_graph (process_edge (u, v, key, d) self)) x y \<longleftrightarrow>
     has_edge (split_graph self) x y \<or>
     (if has_edge (split_graph self) u v
      then (x, y) = (u, next_name self u v) \<or> (x, y) = (next_name self u v, v)
      else (x, y) = (u, v))"
  by (auto simp: split_graph_process has_edge_add_edge)

lemma has_edge_processed:
  "e \<in> set xs \<Longrightarrow> has_edge (split_graph (build_prefix self xs)) (fst e) (fst (snd e))"
proof (induction xs rule: rev_induct)
  case Nil
  then show ?case by simp
next
  case (snoc x xs)
  obtain u v key d where x: "x = (u, v, key, d)" by (cases x) auto
  show ?case
  proof (cases "e = x")
    case True
    then show ?thesis by (auto simp: build_prefix_snoc x has_edge_process)
  next
    case False
    then have "e \<in> set xs" using snoc.prems by simp
    from snoc.IH[OF this] show ?thesis by (simp add: build_prefix_snoc x has_edge_process)
  qed
qed

lemma reverse_entry_kept:
  assumes "edge_id_of e \<noteq> (u, v, key)"
  shows "map_of (reverse_entries (process_edge e self) (u, v)) key =
         map_of (reverse_entries self (u, v)) key"
proof -
  obtain u' v' key' d' where e: "e = (u', v', key', d')" by (cases e) auto
  from assms have "(u', v') \<noteq> (u, v) \<or> key' \<noteq> key" by (auto simp: e edge_id_of_def)
  then show ?thesis by (auto simp: e reverse_entries_process update_conv')
qed

lemma reverse_entry_new:
  "map_of (reverse_entries (process_edge (u, v, key, d) self) (u, v)) key =
     Some (u, entry_target self u v)"
  by (simp add: reverse_entries_process update_conv')

lemma reverse_entry_fold:
  "\<forall>e \<in> set ys. edge_id_of e \<noteq> (u, v, key) \<Longrightarrow>
   map_of (reverse_entries (fold process_edge ys st) (u, v)) key = map_of (reverse_entries st (u, v)) key"
  by (induction ys arbitrary: st) (simp_all add: reverse_entry_kept)

lemma build_prefix_split:
  "build_prefix self (xs @ e # ys) = fold process_edge ys (process_edge e (build_prefix self xs))"
  by (simp add: build_prefix_def)

lemma reverse_entry_final:
  assumes "distinct (map edge_id_of (xs @ (u, v, key, d) # ys))"
  shows "map_of (reverse_entries (build_prefix self (xs @ (u, v, key, d) # ys)) (u, v)) key =
         Some (u, entry_target (build_prefix self xs) u v)"
proof -
  have "\<forall>e \<in> set ys. edge_id_of e \<noteq> (u, v, key)"
    using assms by (auto simp: edge_id_of_def)
  from reverse_entry_fold[OF this] show ?thesis
    by (simp add: build_prefix_split reverse_entry_new)
qed

lemma entry_point_alt:
  "entry_point self (u, v, key) = map_option snd (map_of (reverse_entries self (u, v)) key)"
  by (simp add: entry_point_def reverse_entries_def split: option.splits)


lemma parallel_take_less:
  assumes "j < i" "i \<le> length es" "edge_pair_of (es ! j) = p"
  shows "length (parallel (take j es) p) < length (parallel (take i es) p)"
proof -
  have j: "j < length (take i es)" using assms(1,2) by simp
  have "take i es = take j (take i es) @ (take i es) ! j # drop (Suc j) (take i es)"
    using id_take_nth_drop[OF j] .
  moreover have "take j (take i es) = take j es" using assms(1) by (simp add: min_def)
  moreover have "(take i es) ! j = es ! j" using assms(1) by simp
  ultimately have "take i es = take j es @ es ! j # drop (Suc j) (take i es)" by simp
  then have "parallel (take i es) p =
             parallel (take j es) p @ es ! j # parallel (drop (Suc j) (take i es)) p"
    using assms(3) by (metis (mono_tags, lifting) filter.simps(2) filter_append parallel_def)
  then show ?thesis by simp
qed

lemma state_before_final:
  assumes "i < length (mg_edges G)" "mg_edges G ! i = (u, v, key, d)"
  shows "init G starts ends =
         fold process_edge (drop (Suc i) (mg_edges G))
           (process_edge (u, v, key, d) (state_before G starts ends i))"
proof -
  have "mg_edges G = take i (mg_edges G) @ (u, v, key, d) # drop (Suc i) (mg_edges G)"
    using id_take_nth_drop[OF assms(1)] assms(2) by simp
  then have "build_prefix (blank G starts ends) (mg_edges G) =
             build_prefix (blank G starts ends)
               (take i (mg_edges G) @ (u, v, key, d) # drop (Suc i) (mg_edges G))" by simp
  then show ?thesis unfolding init_prefix state_before_def build_prefix_split .
qed

lemma entry_point_final:
  assumes "distinct (map edge_id_of (mg_edges G))" "i < length (mg_edges G)"
    "mg_edges G ! i = (u, v, key, d)"
  shows "entry_point (init G starts ends) (u, v, key) =
         Some (entry_target (state_before G starts ends i) u v)"
proof -
  have es: "mg_edges G = take i (mg_edges G) @ (u, v, key, d) # drop (Suc i) (mg_edges G)"
    using id_take_nth_drop[OF assms(2)] assms(3) by simp
  have "distinct (map edge_id_of (take i (mg_edges G) @ (u, v, key, d) # drop (Suc i) (mg_edges G)))"
    using assms(1) es by simp
  from reverse_entry_final[OF this, of "blank G starts ends"] es
  show ?thesis by (simp add: entry_point_alt init_prefix state_before_def)
qed

text \<open>
  When the builder processes the edge of index \<^verbatim>\<open>i\<close>, a second-or-later
  parallel edge between (u,v) (some earlier edge of the enumeration joins the same pair),
  the split graph has the edge u->v, so the branch that creates a synthetic node is taken;
  the number of entries recorded in the reverse map for (u,v) at that moment is the number
  c of earlier edges of the pair; the node created is named from (u, v, c), and it is the
  entry point recorded for the edge in the finished object; and the name is fresh among the
  parallel edges of the pair: no earlier edge between (u,v) has it as its entry point.
  The edge identities (u, v, key) of the enumeration are distinct, as in any multigraph.
\<close>

lemma fresh_ordinal_within_pair:
  assumes "distinct (map edge_id_of (mg_edges G))"
    and "i < length (mg_edges G)"
    and "mg_edges G ! i = (u, v, key, d)"
    and "c = length (parallel (take i (mg_edges G)) (u, v))"
    and "0 < c"
  shows "has_edge (split_graph (state_before G starts ends i)) u v \<and>
         length (reverse_entries (state_before G starts ends i) (u, v)) = c \<and>
         next_name (state_before G starts ends i) u v = split_node_name u v c \<and>
         entry_point (init G starts ends) (u, v, key) = Some (split_node_name u v c) \<and>
         (\<forall>j<i. \<forall>key' d'. mg_edges G ! j = (u, v, key', d') \<longrightarrow>
              entry_point (init G starts ends) (u, v, key') \<noteq> Some (split_node_name u v c))"
proof -
  let ?es = "mg_edges G"
  let ?st = "state_before G starts ends"
  have dt: "\<And>k. distinct (map edge_id_of (take k ?es))"
    using assms(1) by (simp add: distinct_take take_map[symmetric])
  have cnt: "\<And>k p. length (reverse_entries (?st k) p) = length (parallel (take k ?es) p)"
    unfolding state_before_def by (rule reverse_count[OF dt])
  from assms(4,5) obtain e where e: "e \<in> set (take i ?es)" "edge_pair_of e = (u, v)"
    by (cases "parallel (take i ?es) (u, v)")
       (auto simp: parallel_def filter_empty_conv dest: filter_eq_ConsD)
  have he: "has_edge (split_graph (?st i)) u v"
    using has_edge_processed[OF e(1), of "blank G starts ends"] e(2)
    by (simp add: state_before_def edge_pair_of_def)
  have len: "length (reverse_entries (?st i) (u, v)) = c" using cnt assms(4) by simp
  have nn: "next_name (?st i) u v = split_node_name u v c" by (simp add: next_name_def len)
  have ep: "entry_point (init G starts ends) (u, v, key) = Some (split_node_name u v c)"
    using entry_point_final[OF assms(1,2,3)] he nn by (simp add: entry_target_def)
  have fresh: "entry_point (init G starts ends) (u, v, key') \<noteq> Some (split_node_name u v c)"
    if j: "j < i" and ej: "?es ! j = (u, v, key', d')" for j key' d'
  proof -
    have jl: "j < length ?es" using j assms(2) by simp
    have "length (parallel (take j ?es) (u, v)) < c"
      unfolding assms(4) using parallel_take_less[OF j, of ?es "(u, v)"] assms(2) ej
      by (simp add: edge_pair_of_def)
    then have lt: "length (reverse_entries (?st j) (u, v)) < c" using cnt by simp
    have "entry_target (?st j) u v \<noteq> split_node_name u v c"
      using lt target_not_name[of v u c]
      by (auto simp: entry_target_def next_name_def split_node_name_inj)
    then show ?thesis using entry_point_final[OF assms(1) jl ej] by simp
  qed
  from he len nn ep fresh show ?thesis by blast
qed

text \<open>The second edge of the scenario graph is such an edge.\<close>

lemma fresh_ordinal_scenario:
  "distinct (map edge_id_of (mg_edges scenario_graph)) \<and>
   mg_edges scenario_graph ! 1 = (PyStr ''A'', PyStr ''B'', PyStr ''k1'', flow_attr 3) \<and>
   length (parallel (take 1 (mg_edges scenario_graph)) (PyStr ''A'', PyStr ''B'')) = 1 \<and>
   has_edge (split_graph (state_before scenario_graph [] [] 1)) (PyStr ''A'') (PyStr ''B'') \<and>
   length (reverse_entries (state_before scenario_graph [] [] 1) (PyStr ''A'', PyStr ''B'')) = 1 \<and>
   next_name (state_before scenario_graph [] [] 1) (PyStr ''A'') (PyStr ''B'') = PyStr ''A_B_split_1'' \<and>
   entry_point (init scenario_graph [] []) (PyStr ''A'', PyStr ''B'', PyStr ''k1'') =
     Some (PyStr ''A_B_split_1'')"
proof -
  have d: "distinct (map edge_id_of (mg_edges scenario_graph))"
    by (simp add: scenario_graph_def edge_id_of_def)
  have i: "1 < length (mg_edges scenario_graph)" by (simp add: scenario_graph_def)
  have e: "mg_edges scenario_graph ! 1 = (PyStr ''A'', PyStr ''B'', PyStr ''k1'', flow_attr 3)"
    by (simp add: scenario_graph_def)
  have c: "1 = length (parallel (take 1 (mg_edges scenario_graph)) (PyStr ''A'', PyStr ''B''))"
    by (simp add: scenario_graph_def parallel_def edge_pair_of_def)
  have n: "split_node_name (PyStr ''A'') (PyStr ''B'') 1 = PyStr ''A_B_split_1''"
    by (simp add: split_node_name_def py_str_def split_marker_def str_nat_1)
  show ?thesis
    using fresh_ordinal_within_pair[OF d i e c, of "[]" "[]"] d e c n by simp
qed

section \<open>The split graph under the conditions on the input\<close>

lemma endpoints_ok_snoc:
  "endpoints_ok (xs @ [e]) \<longleftrightarrow>
     endpoints_ok xs \<and> \<not> str_with_marker (fst e) \<and> \<not> str_with_marker (fst (snd e))"
  by (auto simp: endpoints_ok_def)

lemma chain_key_snoc:
  "chain_key (xs @ [(u, v, key, d)]) p \<longleftrightarrow>
     chain_key xs p \<or>
     (0 < length (parallel xs (u, v)) \<and>
      (p = (u, split_node_name u v (length (parallel xs (u, v)))) \<or>
       p = (split_node_name u v (length (parallel xs (u, v))), v)))"
  (is "?L \<longleftrightarrow> ?A \<or> ?B")
proof
  assume ?L
  then obtain u' v' n where n: "0 < n" "n < length (parallel (xs @ [(u, v, key, d)]) (u', v'))"
    and p: "p = (u', split_node_name u' v' n) \<or> p = (split_node_name u' v' n, v')"
    unfolding chain_key_def by blast
  show "?A \<or> ?B"
  proof (cases "(u', v') = (u, v)")
    case True
    then have "n < length (parallel xs (u, v)) \<or> n = length (parallel xs (u, v))"
      using n(2) by (auto simp: parallel_snoc edge_pair_of_def)
    then show ?thesis
    proof
      assume "n < length (parallel xs (u, v))"
      then have ?A unfolding chain_key_def using n(1) p True by blast
      then show ?thesis ..
    next
      assume "n = length (parallel xs (u, v))"
      then have ?B using n(1) p True by auto
      then show ?thesis ..
    qed
  next
    case False
    then have "n < length (parallel xs (u', v'))"
      using n(2) by (auto simp: parallel_snoc edge_pair_of_def)
    then have ?A unfolding chain_key_def using n(1) p by blast
    then show ?thesis ..
  qed
next
  assume "?A \<or> ?B"
  then show ?L
  proof
    assume ?A
    then obtain u' v' n where n: "0 < n" "n < length (parallel xs (u', v'))"
      and p: "p = (u', split_node_name u' v' n) \<or> p = (split_node_name u' v' n, v')"
      unfolding chain_key_def by blast
    have "n < length (parallel (xs @ [(u, v, key, d)]) (u', v'))"
      using n(2) by (simp add: parallel_snoc)
    then show ?L unfolding chain_key_def using n(1) p by blast
  next
    assume b: ?B
    have "length (parallel xs (u, v)) < length (parallel (xs @ [(u, v, key, d)]) (u, v))"
      by (simp add: parallel_snoc edge_pair_of_def)
    then show ?L unfolding chain_key_def using b by blast
  qed
qed

lemma chain_key_not_plain:
  "\<not> str_with_marker a \<Longrightarrow> \<not> str_with_marker b \<Longrightarrow> \<not> chain_key xs (a, b)"
  unfolding chain_key_def using str_with_marker_name by auto

lemma split_edge_keys:
  "distinct (map edge_id_of xs) \<Longrightarrow> endpoints_ok xs \<Longrightarrow>
   has_edge (split_graph (build_prefix self xs)) a b \<longleftrightarrow> parallel xs (a, b) \<noteq> [] \<or> chain_key xs (a, b)"
proof (induction xs arbitrary: a b rule: rev_induct)
  case Nil
  then show ?case by (simp add: build_prefix_Nil has_edge_def chain_key_def)
next
  case (snoc e xs)
  obtain u v key d where e: "e = (u, v, key, d)" by (cases e) auto
  let ?st = "build_prefix self xs"
  let ?c = "length (parallel xs (u, v))"
  have d: "distinct (map edge_id_of xs)" using snoc.prems(1) by simp
  have ok: "endpoints_ok xs" and nu: "\<not> str_with_marker u" and nv: "\<not> str_with_marker v"
    using snoc.prems(2) by (simp_all add: endpoints_ok_snoc e)
  note IH = snoc.IH[OF d ok]
  have he: "has_edge (split_graph ?st) u v \<longleftrightarrow> 0 < ?c"
    using IH[of u v] chain_key_not_plain[OF nu nv, of xs] by simp
  have nn: "next_name ?st u v = split_node_name u v ?c"
    by (simp add: next_name_def reverse_count[OF d])
  have par: "parallel (xs @ [e]) (a, b) \<noteq> [] \<longleftrightarrow> parallel xs (a, b) \<noteq> [] \<or> (a, b) = (u, v)"
    by (auto simp: parallel_snoc e edge_pair_of_def)
  show ?case
  proof (cases "0 < ?c")
    case True
    then have "parallel xs (u, v) \<noteq> []" by auto
    then show ?thesis
      unfolding build_prefix_snoc e has_edge_process chain_key_snoc par[unfolded e]
      using True he nn IH[of a b] by auto
  next
    case False
    then show ?thesis
      unfolding build_prefix_snoc e has_edge_process chain_key_snoc par[unfolded e]
      using he nn IH[of a b] by auto
  qed
qed

lemma entry_target_expected:
  assumes "distinct (map edge_id_of xs)" "endpoints_ok xs"
    "\<not> str_with_marker u" "\<not> str_with_marker v"
  shows "entry_target (build_prefix self xs) u v = expected_target xs u v"
  using split_edge_keys[OF assms(1,2), of self u v] chain_key_not_plain[OF assms(3,4), of xs]
  by (simp add: entry_target_def expected_target_def next_name_def reverse_count[OF assms(1)])


lemma clash_free_mono: "clash_free (xs @ [e]) \<Longrightarrow> clash_free xs"
  by (simp add: clash_free_def)

lemma parallel_mid:
  "parallel (ys @ (u, v, key, d) # zs) (u, v) = parallel ys (u, v) @ (u, v, key, d) # parallel zs (u, v)"
  by (simp add: parallel_def edge_pair_of_def)

lemma forward_new:
  assumes d: "distinct (map edge_id_of (ys @ [(u, v, key, d)]))"
    and ok: "endpoints_ok (ys @ [(u, v, key, d)])"
  shows "edge_mapping (build_prefix self (ys @ [(u, v, key, d)])) (u, expected_target ys u v) = Some (u, v, key) \<and>
         (expected_target ys u v \<noteq> v \<longrightarrow>
          edge_mapping (build_prefix self (ys @ [(u, v, key, d)])) (expected_target ys u v, v) = Some (u, v, key))"
proof -
  let ?st = "build_prefix self ys"
  have dy: "distinct (map edge_id_of ys)" using d by simp
  have oky: "endpoints_ok ys" and nu: "\<not> str_with_marker u" and nv: "\<not> str_with_marker v"
    using ok by (simp_all add: endpoints_ok_snoc)
  have he: "has_edge (split_graph ?st) u v \<longleftrightarrow> parallel ys (u, v) \<noteq> []"
    using split_edge_keys[OF dy oky, of self u v] chain_key_not_plain[OF nu nv, of ys] by simp
  have nn: "next_name ?st u v = split_node_name u v (length (parallel ys (u, v)))"
    by (simp add: next_name_def reverse_count[OF dy])
  show ?thesis
  proof (cases "parallel ys (u, v) = []")
    case True
    then show ?thesis
      unfolding build_prefix_snoc edge_mapping_process' using he
      by (simp add: expected_target_def)
  next
    case False
    have "u \<noteq> split_node_name u v (length (parallel ys (u, v)))"
      using not_marker_not_name[OF nu] .
    then show ?thesis
      unfolding build_prefix_snoc edge_mapping_process' using he nn False
      by (simp add: expected_target_def)
  qed
qed

lemma upd1_other: "k \<noteq> a \<Longrightarrow> (m(a \<mapsto> x)) k = m k"
  by simp

lemma upd2_other: "k \<noteq> a \<Longrightarrow> k \<noteq> b \<Longrightarrow> (m(a \<mapsto> x, b \<mapsto> y)) k = m k"
  by simp

lemma forward_kept:
  assumes d: "distinct (map edge_id_of (xs @ [(u', v', key', d')]))"
    and ok: "endpoints_ok (xs @ [(u', v', key', d')])"
    and cf: "clash_free (xs @ [(u', v', key', d')])"
    and x: "(u, v, key, d) \<in> set xs"
    and n: "n < length (parallel xs (u, v))"
    and t: "t = (if n = 0 then v else split_node_name u v n)"
  shows "edge_mapping (build_prefix self (xs @ [(u', v', key', d')])) (u, t) = edge_mapping (build_prefix self xs) (u, t) \<and>
         (t \<noteq> v \<longrightarrow>
          edge_mapping (build_prefix self (xs @ [(u', v', key', d')])) (t, v) = edge_mapping (build_prefix self xs) (t, v))"
proof -
  let ?st = "build_prefix self xs"
  let ?c = "length (parallel xs (u', v'))"
  let ?N = "split_node_name u' v' ?c"
  have dx: "distinct (map edge_id_of xs)" using d by simp
  have okx: "endpoints_ok xs" and nu': "\<not> str_with_marker u'" and nv': "\<not> str_with_marker v'"
    using ok by (simp_all add: endpoints_ok_snoc)
  have nu: "\<not> str_with_marker u" and nv: "\<not> str_with_marker v"
    using okx x by (auto simp: endpoints_ok_def)
  have he: "has_edge (split_graph ?st) u' v' \<longleftrightarrow> 0 < ?c"
    using split_edge_keys[OF dx okx, of self u' v'] chain_key_not_plain[OF nu' nv', of xs] by simp
  have nn: "next_name ?st u' v' = ?N"
    by (simp add: next_name_def reverse_count[OF dx])
  have clash: False if "split_node_name u v n = ?N" "u = u' \<or> v = v'"
  proof -
    from that(1) have pp: "pair_prefix u v = pair_prefix u' v'" and nc: "n = ?c"
      by (simp_all add: split_node_name_eq)
    have m1: "(u, v, key, d) \<in> set (xs @ [(u', v', key', d')])" using x by simp
    have m2: "(u', v', key', d') \<in> set (xs @ [(u', v', key', d')])" by simp
    have "\<forall>e' \<in> set (xs @ [(u', v', key', d')]). \<not> clash (u, v, key, d) e'"
      using cf[unfolded clash_free_def] m1 by (rule bspec)
    then have "\<not> clash (u, v, key, d) (u', v', key', d')" using m2 by (rule bspec)
    then have "(u, v) = (u', v')" using pp that(2) by (simp add: clash_def edge_pair_of_def)
    with n nc show False by simp
  qed
  have direct: "(u, v) \<noteq> (u', v')" if "?c = 0"
    using that n by auto
  have k1: "(u, t) \<noteq> (u', v')" if "?c = 0"
    using direct[OF that] nv' t by (cases "n = 0") auto
  have k2: "(t, v) \<noteq> (u', v')" if "?c = 0" "t \<noteq> v"
    using that nu' t by (cases "n = 0") auto
  have k3: "(u, t) \<noteq> (u', ?N)"
    using clash nv t by (cases "n = 0") auto
  have k4: "(u, t) \<noteq> (?N, v')"
    using nu by auto
  have k5: "(t, v) \<noteq> (u', ?N)"
    using nv by auto
  have k6: "(t, v) \<noteq> (?N, v')" if "t \<noteq> v"
    using that clash t by (cases "n = 0") auto
  let ?em = "edge_mapping ?st"
  show ?thesis
  proof (cases "0 < ?c")
    case True
    have em': "edge_mapping (build_prefix self (xs @ [(u', v', key', d')])) =
               ?em((u', ?N) \<mapsto> (u', v', key'), (?N, v') \<mapsto> (u', v', key'))"
      unfolding build_prefix_snoc edge_mapping_process' using he nn True by simp
    have a: "(?em((u', ?N) \<mapsto> (u', v', key'), (?N, v') \<mapsto> (u', v', key'))) (u, t) = ?em (u, t)"
      using k3 k4 by (rule upd2_other)
    have b: "(?em((u', ?N) \<mapsto> (u', v', key'), (?N, v') \<mapsto> (u', v', key'))) (t, v) = ?em (t, v)"
      if "t \<noteq> v" using k5 k6[OF that] by (rule upd2_other)
    show ?thesis unfolding em' using a b by blast
  next
    case False
    have em': "edge_mapping (build_prefix self (xs @ [(u', v', key', d')])) =
               ?em((u', v') \<mapsto> (u', v', key'))"
      unfolding build_prefix_snoc edge_mapping_process' using he False by simp
    have c0: "?c = 0" using False by simp
    have a: "(?em((u', v') \<mapsto> (u', v', key'))) (u, t) = ?em (u, t)"
      using k1[OF c0] by (rule upd1_other)
    have b: "(?em((u', v') \<mapsto> (u', v', key'))) (t, v) = ?em (t, v)"
      if "t \<noteq> v" using k2[OF c0 that] by (rule upd1_other)
    show ?thesis unfolding em' using a b by blast
  qed
qed

lemma forward_facts:
  "distinct (map edge_id_of (ys @ (u, v, key, d) # zs)) \<Longrightarrow>
   endpoints_ok (ys @ (u, v, key, d) # zs) \<Longrightarrow>
   clash_free (ys @ (u, v, key, d) # zs) \<Longrightarrow>
   edge_mapping (build_prefix self (ys @ (u, v, key, d) # zs)) (u, expected_target ys u v) = Some (u, v, key) \<and>
   (expected_target ys u v \<noteq> v \<longrightarrow>
    edge_mapping (build_prefix self (ys @ (u, v, key, d) # zs)) (expected_target ys u v, v) = Some (u, v, key))"
proof (induction zs rule: rev_induct)
  case Nil
  have "endpoints_ok (ys @ [(u, v, key, d)])" using Nil.prems(2) by simp
  from forward_new[OF Nil.prems(1) this] show ?case by simp
next
  case (snoc e zs)
  obtain u' v' key' d' where e: "e = (u', v', key', d')" by (cases e) auto
  let ?xs = "ys @ (u, v, key, d) # zs"
  have eq: "ys @ (u, v, key, d) # zs @ [e] = ?xs @ [(u', v', key', d')]" by (simp add: e)
  have d': "distinct (map edge_id_of (?xs @ [(u', v', key', d')]))" using snoc.prems(1) eq by simp
  have ok': "endpoints_ok (?xs @ [(u', v', key', d')])" using snoc.prems(2) eq by simp
  have cf': "clash_free (?xs @ [(u', v', key', d')])" using snoc.prems(3) eq by simp
  have dx: "distinct (map edge_id_of ?xs)" using d' by simp
  have okx: "endpoints_ok ?xs" using snoc.prems(2) by (auto simp: endpoints_ok_def)
  have cfx: "clash_free ?xs" using cf' by (rule clash_free_mono)
  note IH = snoc.IH[OF dx okx cfx]
  have x: "(u, v, key, d) \<in> set ?xs" by simp
  have n: "length (parallel ys (u, v)) < length (parallel ?xs (u, v))"
    by (simp add: parallel_mid)
  have t: "expected_target ys u v =
           (if length (parallel ys (u, v)) = 0 then v
            else split_node_name u v (length (parallel ys (u, v))))"
    by (simp add: expected_target_def)
  from forward_kept[OF d' ok' cf' x n t, of self] IH show ?case
    unfolding eq by simp
qed


subsection \<open>From the conditions on the graph to the conditions on its edge list\<close>

lemma marker_eq: "init marker_graph [] [] = marker_built"
  by (simp add: build_eval process_edge.simps marker_graph_def marker_built_def)

lemma endpoints_ok_graph:
  assumes "well_formed G" "marker_free G"
  shows "endpoints_ok (mg_edges G)"
  using assms unfolding well_formed_def marker_free_def endpoints_ok_def by blast

lemma pair_prefix_same_source: "pair_prefix u v = pair_prefix u v' \<longleftrightarrow> py_str v = py_str v'"
  by (simp add: pair_prefix_def)

lemma pair_prefix_same_target: "pair_prefix u v = pair_prefix u' v \<longleftrightarrow> py_str u = py_str u'"
  by (simp add: pair_prefix_def)

lemma clash_free_graph:
  assumes wf: "well_formed G" and inj: "str_injective G"
  shows "clash_free (mg_edges G)"
  unfolding clash_free_def
proof (intro ballI notI)
  fix e e' assume e: "e \<in> set (mg_edges G)" and e': "e' \<in> set (mg_edges G)" and c: "clash e e'"
  have n: "fst e \<in> node_ids G" "fst (snd e) \<in> node_ids G"
    "fst e' \<in> node_ids G" "fst (snd e') \<in> node_ids G"
    using wf e e' unfolding well_formed_def by blast+
  from c have pp: "pair_prefix (fst e) (fst (snd e)) = pair_prefix (fst e') (fst (snd e'))"
    and sh: "fst e = fst e' \<or> fst (snd e) = fst (snd e')"
    and ne: "edge_pair_of e \<noteq> edge_pair_of e'"
    unfolding clash_def by blast+
  from sh show False
  proof
    assume a: "fst e = fst e'"
    with pp have "py_str (fst (snd e)) = py_str (fst (snd e'))" by (simp add: pair_prefix_same_source)
    then have "fst (snd e) = fst (snd e')" using inj n(2,4) unfolding str_injective_def inj_on_def by blast
    with a ne show False by (simp add: edge_pair_of_def)
  next
    assume a: "fst (snd e) = fst (snd e')"
    with pp have "py_str (fst e) = py_str (fst e')" by (simp add: pair_prefix_same_target)
    then have "fst e = fst e'" using inj n(1,3) unfolding str_injective_def inj_on_def by blast
    with a ne show False by (simp add: edge_pair_of_def)
  qed
qed

lemma clash_free_prefix:
  assumes "prefix_injective G"
  shows "clash_free (mg_edges G)"
  unfolding clash_free_def
proof (intro ballI notI)
  fix e e' assume e: "e \<in> set (mg_edges G)" and e': "e' \<in> set (mg_edges G)" and c: "clash e e'"
  have m: "edge_pair_of e \<in> edge_pair_of ` set (mg_edges G)" "edge_pair_of e' \<in> edge_pair_of ` set (mg_edges G)"
    using e e' by blast+
  from c have "pair_prefix (fst (edge_pair_of e)) (snd (edge_pair_of e)) =
               pair_prefix (fst (edge_pair_of e')) (snd (edge_pair_of e'))"
    by (simp add: clash_def edge_pair_of_def)
  then have "edge_pair_of e = edge_pair_of e'"
    using assms m unfolding prefix_injective_def inj_on_def by blast
  with c show False by (simp add: clash_def)
qed

subsection \<open>The split representation of an original edge\<close>

lemma convert_original_to_split_alt:
  "convert_original_to_split self (u, v, key) =
     (case map_of (reverse_entries self (u, v)) key of
        None \<Rightarrow> []
      | Some split_edge \<Rightarrow>
          if str_with_marker (snd split_edge)
          then [(u, snd split_edge), (snd split_edge, v)]
          else [split_edge])"
  by (simp add: reverse_entries_def split: option.splits)

declare convert_original_to_split.simps [simp del]

lemma expected_target_cases:
  "expected_target ys u v = v \<or> (\<exists>n. expected_target ys u v = split_node_name u v n)"
  by (auto simp: expected_target_def)

lemma original_edge_split:
  assumes d: "distinct (map edge_id_of (mg_edges G))"
    and ok: "endpoints_ok (mg_edges G)"
    and cf: "clash_free (mg_edges G)"
    and es: "mg_edges G = ys @ (u, v, key, d') # zs"
    and t: "t = expected_target ys u v"
  shows "map_of (reverse_entries (init G starts ends) (u, v)) key = Some (u, t)"
    and "convert_original_to_split (init G starts ends) (u, v, key) =
           (if t = v then [(u, v)] else [(u, t), (t, v)])"
    and "edge_mapping (init G starts ends) (u, t) = Some (u, v, key)"
    and "t \<noteq> v \<Longrightarrow> edge_mapping (init G starts ends) (t, v) = Some (u, v, key)"
proof -
  have dy: "distinct (map edge_id_of ys)" using d es by simp
  have oky: "endpoints_ok ys" using ok es by (auto simp: endpoints_ok_def)
  have nu: "\<not> str_with_marker u" and nv: "\<not> str_with_marker v"
    using ok es by (auto simp: endpoints_ok_def)
  have "map_of (reverse_entries (init G starts ends) (u, v)) key =
        Some (u, entry_target (build_prefix (blank G starts ends) ys) u v)"
    unfolding init_prefix es by (rule reverse_entry_final) (use d es in simp)
  then show r: "map_of (reverse_entries (init G starts ends) (u, v)) key = Some (u, t)"
    by (simp add: entry_target_expected[OF dy oky nu nv] t)
  have tm: "t \<noteq> v \<Longrightarrow> str_with_marker t"
    using expected_target_cases[of ys u v] t by auto
  show "convert_original_to_split (init G starts ends) (u, v, key) =
           (if t = v then [(u, v)] else [(u, t), (t, v)])"
    using r nv tm by (auto simp: convert_original_to_split_alt)
  have f: "edge_mapping (build_prefix (blank G starts ends) (ys @ (u, v, key, d') # zs)) (u, expected_target ys u v) = Some (u, v, key) \<and>
     (expected_target ys u v \<noteq> v \<longrightarrow>
      edge_mapping (build_prefix (blank G starts ends) (ys @ (u, v, key, d') # zs)) (expected_target ys u v, v) = Some (u, v, key))"
    by (rule forward_facts) (use d ok cf es in simp_all)
  from f show "edge_mapping (init G starts ends) (u, t) = Some (u, v, key)"
    by (simp add: init_prefix es t)
  from f show "t \<noteq> v \<Longrightarrow> edge_mapping (init G starts ends) (t, v) = Some (u, v, key)"
    by (simp add: init_prefix es t)
qed

text \<open>
  In a multigraph in which no node identifier is a string containing
  \<^verbatim>\<open>_split_\<close> and distinct node identifiers render to distinct text, for every original
  edge e = (u, v, key) the list \<^verbatim>\<open>convert_original_to_split(e)\<close> is not empty and
  \<^verbatim>\<open>convert_edge_to_original\<close> maps every split edge in it back to exactly e.
\<close>

lemma round_trip_on_clean_names:
  assumes "well_formed G" and "marker_free G" and "str_injective G"
    and "(u, v, key, d) \<in> set (mg_edges G)"
  shows "convert_original_to_split (init G starts ends) (u, v, key) \<noteq> [] \<and>
         (\<forall>split_edge \<in> set (convert_original_to_split (init G starts ends) (u, v, key)).
            convert_edge_to_original (init G starts ends) split_edge = Some (u, v, key))"
proof -
  from assms(4) obtain ys zs where es: "mg_edges G = ys @ (u, v, key, d) # zs"
    by (auto dest: split_list)
  have dd: "distinct (map edge_id_of (mg_edges G))" using assms(1) by (simp add: well_formed_def)
  note ok = endpoints_ok_graph[OF assms(1,2)]
  note cf = clash_free_graph[OF assms(1,3)]
  note facts = original_edge_split[OF dd ok cf es refl, of starts ends]
  show ?thesis
    using facts(2,3,4) by (auto simp: convert_edge_to_original_def)
qed

text \<open>The scenario graph meets the conditions, and the chain of its split edge maps back.\<close>

lemma round_trip_scenario:
  "well_formed scenario_graph \<and> marker_free scenario_graph \<and> str_injective scenario_graph \<and>
   (PyStr ''A'', PyStr ''B'', PyStr ''k1'', flow_attr 3) \<in> set (mg_edges scenario_graph) \<and>
   convert_original_to_split (init scenario_graph [] []) (PyStr ''A'', PyStr ''B'', PyStr ''k1'') =
     [(PyStr ''A'', PyStr ''A_B_split_1''), (PyStr ''A_B_split_1'', PyStr ''B'')] \<and>
   convert_edge_to_original (init scenario_graph [] []) (PyStr ''A'', PyStr ''A_B_split_1'') =
     Some (PyStr ''A'', PyStr ''B'', PyStr ''k1'') \<and>
   convert_edge_to_original (init scenario_graph [] []) (PyStr ''A_B_split_1'', PyStr ''B'') =
     Some (PyStr ''A'', PyStr ''B'', PyStr ''k1'')"
proof -
  have wf: "well_formed scenario_graph"
    by (simp add: well_formed_def scenario_graph_def node_ids_def edge_id_of_def)
  have mf: "marker_free scenario_graph"
    by (simp add: marker_free_def scenario_graph_def node_ids_def marker_eval)
  have si: "str_injective scenario_graph"
    by (simp add: str_injective_def scenario_graph_def node_ids_def py_str_def)
  have e: "(PyStr ''A'', PyStr ''B'', PyStr ''k1'', flow_attr 3) \<in> set (mg_edges scenario_graph)"
    by (simp add: scenario_graph_def)
  have l: "convert_original_to_split (init scenario_graph [] []) (PyStr ''A'', PyStr ''B'', PyStr ''k1'') =
     [(PyStr ''A'', PyStr ''A_B_split_1''), (PyStr ''A_B_split_1'', PyStr ''B'')]"
    unfolding scenario_def[symmetric] scenario_eq
    by (simp add: scenario_built_def convert_original_to_split.simps marker_eval)
  show ?thesis
    using wf mf si e l round_trip_on_clean_names[OF wf mf si e, of "[]" "[]"] by simp
qed

section \<open>Synthetic nodes, ignore sets and paths\<close>

lemma original_graph_init [simp]: "original_graph (init G starts ends) = G"
  by (simp add: init_prefix start_build_def blank_def)

lemma has_node_add_node [simp]: "has_node (add_node n a g) x \<longleftrightarrow> x = n \<or> has_node g x"
  by (simp add: has_node_def)

lemma has_node_add_edge [simp]: "has_node (add_edge u v a g) x \<longleftrightarrow> x = u \<or> x = v \<or> has_node g x"
  by (simp add: has_node_def)

lemma nodes_closed_add_node: "nodes_closed g \<Longrightarrow> nodes_closed (add_node n a g)"
  by (simp add: nodes_closed_def)

lemma nodes_closed_add_edge:
  assumes c: "nodes_closed g"
  shows "nodes_closed (add_edge u v a g)"
  unfolding nodes_closed_def
proof
  fix p assume p: "p \<in> fst ` set (dg_edges (add_edge u v a g))"
  obtain x y where xy: "p = (x, y)" by (cases p) auto
  from p have "has_edge (add_edge u v a g) x y" by (simp add: has_edge_def xy)
  then have "(x, y) = (u, v) \<or> has_edge g x y" by (simp add: has_edge_add_edge)
  then show "has_node (add_edge u v a g) (fst p) \<and> has_node (add_edge u v a g) (snd p)"
  proof
    assume "(x, y) = (u, v)"
    then show ?thesis by (simp add: xy)
  next
    assume "has_edge g x y"
    then have "(x, y) \<in> fst ` set (dg_edges g)" by (simp add: has_edge_def)
    with c have "has_node g x \<and> has_node g y" unfolding nodes_closed_def by fastforce
    then show ?thesis by (simp add: xy)
  qed
qed

lemma nodes_closed_process: "nodes_closed (split_graph self) \<Longrightarrow> nodes_closed (split_graph (process_edge e self))"
  by (cases e) (simp add: split_graph_process nodes_closed_add_edge nodes_closed_add_node)

lemma nodes_closed_prefix: "nodes_closed (split_graph (build_prefix self xs))"
proof (induction xs rule: rev_induct)
  case Nil
  then show ?case by (simp add: build_prefix_Nil nodes_closed_def)
next
  case (snoc e xs)
  then show ?case unfolding build_prefix_snoc by (rule nodes_closed_process)
qed

lemma has_edge_nodes:
  "has_edge (split_graph (build_prefix self xs)) a b \<Longrightarrow>
   has_node (split_graph (build_prefix self xs)) a \<and> has_node (split_graph (build_prefix self xs)) b"
  using nodes_closed_prefix[of self xs] unfolding nodes_closed_def has_edge_def by fastforce

lemma has_node_process:
  "has_node (split_graph (process_edge (u, v, key, d) self)) x \<longleftrightarrow>
     has_node (split_graph self) x \<or> x = u \<or> x = v \<or>
     (has_edge (split_graph self) u v \<and> x = next_name self u v)"
  by (auto simp: split_graph_process)

lemma node_shape_prefix:
  assumes "\<forall>e \<in> set xs. fst e \<in> node_ids (original_graph self) \<and> fst (snd e) \<in> node_ids (original_graph self)"
  shows "has_node (split_graph (build_prefix self xs)) n \<Longrightarrow> node_shape (original_graph self) n"
  using assms
proof (induction xs arbitrary: n rule: rev_induct)
  case Nil
  then show ?case by (simp add: build_prefix_Nil has_node_def node_shape_def node_ids_def)
next
  case (snoc e xs)
  obtain u v key d where e: "e = (u, v, key, d)" by (cases e) auto
  have uv: "u \<in> node_ids (original_graph self)" "v \<in> node_ids (original_graph self)"
    using snoc.prems(2) by (simp_all add: e)
  have xs: "\<forall>e \<in> set xs. fst e \<in> node_ids (original_graph self) \<and> fst (snd e) \<in> node_ids (original_graph self)"
    using snoc.prems(2) by simp
  from snoc.prems(1) have "has_node (split_graph (build_prefix self xs)) n \<or> n = u \<or> n = v \<or>
       n = next_name (build_prefix self xs) u v"
    by (auto simp: build_prefix_snoc e has_node_process)
  then show ?case
    using snoc.IH[OF _ xs] uv by (auto simp: node_shape_def next_name_def)
qed

lemma node_shape_init:
  assumes "well_formed G" "has_node (split_graph (init G starts ends)) n"
  shows "node_shape G n"
proof -
  have "\<forall>e \<in> set (mg_edges G). fst e \<in> node_ids (original_graph (blank G starts ends)) \<and>
          fst (snd e) \<in> node_ids (original_graph (blank G starts ends))"
    using assms(1) by (simp add: well_formed_def blank_def)
  from node_shape_prefix[OF this] assms(2) show ?thesis by (simp add: init_prefix blank_def)
qed

lemma synthetic_is_name:
  assumes "well_formed G" "is_synthetic (init G starts ends) n"
  shows "\<exists>u v m. n = split_node_name u v m"
  using node_shape_init[OF assms(1), of starts ends n] assms(2)
  by (auto simp: is_synthetic_def node_shape_def)

subsection \<open>The entries of the reverse map\<close>

lemma reverse_entry_origin:
  assumes d: "distinct (map edge_id_of xs)"
    and m: "map_of (reverse_entries (build_prefix self xs) (u, v)) key = Some se"
  shows "\<exists>d' ys zs. xs = ys @ (u, v, key, d') # zs"
proof -
  from m have "key \<in> fst ` set (reverse_entries (build_prefix self xs) (u, v))"
    by (metis map_of_eq_None_iff option.distinct(1))
  then have "key \<in> set (map fst (reverse_entries (build_prefix self xs) (u, v)))" by simp
  then have "key \<in> set (map edge_key_of (parallel xs (u, v)))"
    by (simp only: reverse_keys[OF d])
  then obtain e where e: "e \<in> set xs" "edge_pair_of e = (u, v)" "edge_key_of e = key"
    by (auto simp: parallel_def)
  obtain a b k d' where abk: "e = (a, b, k, d')" by (cases e) auto
  with e have "e = (u, v, key, d')" by (simp add: edge_pair_of_def edge_key_of_def)
  with e(1) show ?thesis by (metis split_list)
qed

lemma reverse_entry_expected:
  assumes d: "distinct (map edge_id_of (mg_edges G))"
    and ok: "endpoints_ok (mg_edges G)"
    and es: "mg_edges G = ys @ (u, v, key, d') # zs"
  shows "map_of (reverse_entries (init G starts ends) (u, v)) key = Some (u, expected_target ys u v)"
proof -
  have dy: "distinct (map edge_id_of ys)" using d es by simp
  have oky: "endpoints_ok ys" using ok es by (auto simp: endpoints_ok_def)
  have nu: "\<not> str_with_marker u" and nv: "\<not> str_with_marker v"
    using ok es by (auto simp: endpoints_ok_def)
  have "map_of (reverse_entries (init G starts ends) (u, v)) key =
        Some (u, entry_target (build_prefix (blank G starts ends) ys) u v)"
    unfolding init_prefix es by (rule reverse_entry_final) (use d es in simp)
  then show ?thesis by (simp add: entry_target_expected[OF dy oky nu nv])
qed

lemma expected_target_synthetic:
  assumes wf: "well_formed G" and mf: "marker_free G"
    and es: "mg_edges G = ys @ (u, v, key, d') # zs"
    and t: "expected_target ys u v \<noteq> v"
  shows "is_synthetic (init G starts ends) (expected_target ys u v)"
proof -
  let ?n = "length (parallel ys (u, v))"
  have dd: "distinct (map edge_id_of (mg_edges G))" using wf by (simp add: well_formed_def)
  note ok = endpoints_ok_graph[OF wf mf]
  from t have ne: "parallel ys (u, v) \<noteq> []" and tn: "expected_target ys u v = split_node_name u v ?n"
    by (auto simp: expected_target_def)
  have "0 < ?n" using ne by simp
  moreover have "?n < length (parallel (mg_edges G) (u, v))" by (simp add: es parallel_mid)
  ultimately have "chain_key (mg_edges G) (u, split_node_name u v ?n)"
    unfolding chain_key_def by blast
  then have "has_edge (split_graph (init G starts ends)) u (split_node_name u v ?n)"
    unfolding init_prefix using split_edge_keys[OF dd ok] by simp
  then have hn: "has_node (split_graph (init G starts ends)) (split_node_name u v ?n)"
    unfolding init_prefix using has_edge_nodes by blast
  have "split_node_name u v ?n \<notin> node_ids G"
    using mf str_with_marker_name unfolding marker_free_def by blast
  with hn show ?thesis by (simp add: is_synthetic_def tn)
qed

text \<open>On every object, \<^verbatim>\<open>convert_original_to_split\<close> returns the empty list when the pair or
  the key is absent from the reverse map.\<close>

lemma original_to_split_absent:
  "entry_point self (u, v, key) = None \<Longrightarrow> convert_original_to_split self (u, v, key) = []"
  by (simp add: entry_point_alt convert_original_to_split_alt split: option.splits)

text \<open>
  In a multigraph in which no node identifier is a string containing
  \<^verbatim>\<open>_split_\<close>, for every (u, v, key): \<^verbatim>\<open>convert_original_to_split\<close> returns the empty list
  when the pair or the key is absent from the reverse map, the single edge (u, v) when the
  recorded entry point is the direct target v, and the chain (u, x), (x, v) when the
  recorded entry point x is a synthetic node; a recorded entry point is always one of the
  two. The operation is a total function: it raises nothing.
\<close>

lemma original_to_split_cases:
  assumes "well_formed G" and "marker_free G"
  shows "(entry_point (init G starts ends) (u, v, key) = None \<longrightarrow>
            convert_original_to_split (init G starts ends) (u, v, key) = []) \<and>
         (entry_point (init G starts ends) (u, v, key) = Some v \<longrightarrow>
            convert_original_to_split (init G starts ends) (u, v, key) = [(u, v)]) \<and>
         (\<forall>x. entry_point (init G starts ends) (u, v, key) = Some x \<and> is_synthetic (init G starts ends) x \<longrightarrow>
            convert_original_to_split (init G starts ends) (u, v, key) = [(u, x), (x, v)]) \<and>
         (\<forall>x. entry_point (init G starts ends) (u, v, key) = Some x \<longrightarrow>
            x = v \<or> is_synthetic (init G starts ends) x)"
proof -
  let ?d = "init G starts ends"
  have dd: "distinct (map edge_id_of (mg_edges G))" using assms(1) by (simp add: well_formed_def)
  note ok = endpoints_ok_graph[OF assms]
  have none: "convert_original_to_split ?d (u, v, key) = []" if "entry_point ?d (u, v, key) = None"
    using that by (simp add: entry_point_alt convert_original_to_split_alt split: option.splits)
  have some: "\<exists>ys zs d'. mg_edges G = ys @ (u, v, key, d') # zs \<and> x = expected_target ys u v \<and>
        map_of (reverse_entries ?d (u, v)) key = Some (u, x) \<and> v \<in> node_ids G"
    if x: "entry_point ?d (u, v, key) = Some x" for x
  proof -
    from x obtain se where se: "map_of (reverse_entries ?d (u, v)) key = Some se" "snd se = x"
      by (auto simp: entry_point_alt)
    from reverse_entry_origin[OF dd se(1)[unfolded init_prefix]]
    obtain d' ys zs where es: "mg_edges G = ys @ (u, v, key, d') # zs" by blast
    from reverse_entry_expected[OF dd ok es, of starts ends] se
    have "x = expected_target ys u v" "map_of (reverse_entries ?d (u, v)) key = Some (u, x)" by auto
    moreover have "v \<in> node_ids G" using assms(1) es unfolding well_formed_def by auto
    ultimately show ?thesis using es by blast
  qed
  have direct: "convert_original_to_split ?d (u, v, key) = [(u, v)]" if "entry_point ?d (u, v, key) = Some v"
  proof -
    from some[OF that] have r: "map_of (reverse_entries ?d (u, v)) key = Some (u, v)" and "v \<in> node_ids G"
      by auto
    then have "\<not> str_with_marker v" using assms(2) by (simp add: marker_free_def)
    with r show ?thesis by (simp add: convert_original_to_split_alt)
  qed
  have chain: "convert_original_to_split ?d (u, v, key) = [(u, x), (x, v)]"
    if "entry_point ?d (u, v, key) = Some x" "is_synthetic ?d x" for x
  proof -
    from some[OF that(1)] have r: "map_of (reverse_entries ?d (u, v)) key = Some (u, x)" by auto
    from synthetic_is_name[OF assms(1) that(2)] have "str_with_marker x" by auto
    with r show ?thesis by (simp add: convert_original_to_split_alt)
  qed
  have cases: "x = v \<or> is_synthetic ?d x" if "entry_point ?d (u, v, key) = Some x" for x
  proof -
    from some[OF that] obtain ys zs d' where es: "mg_edges G = ys @ (u, v, key, d') # zs"
      and x: "x = expected_target ys u v" by blast
    show ?thesis using expected_target_synthetic[OF assms es, of starts ends] x by auto
  qed
  from none direct chain cases show ?thesis by blast
qed


lemma scenario_well_formed: "well_formed scenario_graph"
  by (simp add: well_formed_def scenario_graph_def node_ids_def edge_id_of_def)

lemma scenario_marker_free: "marker_free scenario_graph"
  by (simp add: marker_free_def scenario_graph_def node_ids_def marker_eval)

lemma scenario_plain: "plain_nodes scenario_graph"
  by (simp add: plain_nodes_def scenario_graph_def node_ids_def marker_eval)

lemma scenario_init: "init scenario_graph [] [] = scenario_built"
  unfolding scenario_def[symmetric] by (rule scenario_eq)

lemma scenario_synthetic: "is_synthetic scenario_built (PyStr ''A_B_split_1'')"
  by (simp add: is_synthetic_def has_node_def node_ids_def scenario_built_def scenario_graph_def)

text \<open>The split edge of the scenario graph is an instance of the chain.\<close>

lemma original_to_split_scenario:
  "well_formed scenario_graph \<and> marker_free scenario_graph \<and>
   entry_point (init scenario_graph [] []) (PyStr ''A'', PyStr ''B'', PyStr ''k1'') = Some (PyStr ''A_B_split_1'') \<and>
   is_synthetic (init scenario_graph [] []) (PyStr ''A_B_split_1'') \<and>
   convert_original_to_split (init scenario_graph [] []) (PyStr ''A'', PyStr ''B'', PyStr ''k1'') =
     [(PyStr ''A'', PyStr ''A_B_split_1''), (PyStr ''A_B_split_1'', PyStr ''B'')]"
proof -
  have ep: "entry_point (init scenario_graph [] []) (PyStr ''A'', PyStr ''B'', PyStr ''k1'') = Some (PyStr ''A_B_split_1'')"
    unfolding scenario_init by (simp add: entry_point_def scenario_built_def)
  have sy: "is_synthetic (init scenario_graph [] []) (PyStr ''A_B_split_1'')"
    unfolding scenario_init by (rule scenario_synthetic)
  show ?thesis
    using scenario_well_formed scenario_marker_free ep sy
      original_to_split_cases[OF scenario_well_formed scenario_marker_free,
        of "[]" "[]" "PyStr ''A''" "PyStr ''B''" "PyStr ''k1''"]
    by blast
qed

subsection \<open>The expansion of an ignore set\<close>

lemma ignore_loop_char:
  "\<forall>e \<in> set es. marker_in (fst (fst e)) = Inr (f (fst (fst e))) \<Longrightarrow>
   ignore_loop es S = Inr (S \<union> {p \<in> fst ` set es. f (fst p)})"
proof (induction es arbitrary: S)
  case Nil
  then show ?case by simp
next
  case (Cons e es)
  obtain a b x where e: "e = ((a, b), x)" by (cases e) auto
  have m: "marker_in a = Inr (f a)" using Cons.prems by (simp add: e)
  have r: "\<forall>e \<in> set es. marker_in (fst (fst e)) = Inr (f (fst (fst e)))" using Cons.prems by simp
  show ?case unfolding e using m Cons.IH[OF r] by auto
qed

lemma edges_view_set:
  assumes "nodes_closed g"
  shows "set (edges_view g) = set (dg_edges g)"
proof
  show "set (edges_view g) \<subseteq> set (dg_edges g)" by (auto simp: edges_view_def)
next
  show "set (dg_edges g) \<subseteq> set (edges_view g)"
  proof
    fix e assume e: "e \<in> set (dg_edges g)"
    obtain a b x where abx: "e = ((a, b), x)" by (cases e) auto
    have "(a, b) \<in> fst ` set (dg_edges g)" using e abx by force
    then have "has_node g a" using assms unfolding nodes_closed_def by fastforce
    then obtain y where "(a, y) \<in> set (dg_nodes g)" by (auto simp: has_node_def)
    then show "e \<in> set (edges_view g)" using e abx by (force simp: edges_view_def)
  qed
qed

lemma plain_marker_free: "plain_nodes G \<Longrightarrow> marker_free G"
  unfolding plain_nodes_def marker_free_def
proof
  fix n assume a: "\<forall>n \<in> node_ids G. marker_in n = Inr False" and n: "n \<in> node_ids G"
  from a n have "marker_in n = Inr False" by blast
  then show "\<not> str_with_marker n" by (cases n) auto
qed

lemma split_node_marker:
  assumes wf: "well_formed G" and pl: "plain_nodes G"
    and n: "has_node (split_graph (init G starts ends)) n"
  shows "marker_in n = Inr (is_synthetic (init G starts ends) n)"
proof (cases "n \<in> node_ids G")
  case True
  then show ?thesis using pl by (simp add: plain_nodes_def is_synthetic_def)
next
  case False
  then have sy: "is_synthetic (init G starts ends) n" using n by (simp add: is_synthetic_def)
  from synthetic_is_name[OF wf sy] show ?thesis using sy by auto
qed

text \<open>
  In a multigraph whose node identifiers are strings or tuples that do
  not contain \<^verbatim>\<open>_split_\<close>, for every set S of split-graph edges
  \<^verbatim>\<open>get_ignore_split_edges\<close> returns exactly the union of S with the set of the edges of the
  split graph whose source node is synthetic; the result is a superset of S, and expanding
  the result again returns it unchanged.
\<close>

lemma expand_ignore_set_on_plain_names:
  assumes "well_formed G" and "plain_nodes G"
  shows "get_ignore_split_edges (init G starts ends) S =
           Inr (S \<union> synthetic_source_edges (init G starts ends)) \<and>
         S \<subseteq> S \<union> synthetic_source_edges (init G starts ends) \<and>
         get_ignore_split_edges (init G starts ends) (S \<union> synthetic_source_edges (init G starts ends)) =
           Inr (S \<union> synthetic_source_edges (init G starts ends))"
proof -
  let ?d = "init G starts ends"
  let ?g = "split_graph ?d"
  have cl: "nodes_closed ?g" unfolding init_prefix by (rule nodes_closed_prefix)
  have m: "\<forall>e \<in> set (edges_view ?g). marker_in (fst (fst e)) = Inr (is_synthetic ?d (fst (fst e)))"
  proof
    fix e assume "e \<in> set (edges_view ?g)"
    then have "e \<in> set (dg_edges ?g)" by (simp add: edges_view_set[OF cl])
    then have "fst e \<in> fst ` set (dg_edges ?g)" by simp
    then have "has_node ?g (fst (fst e))" using cl unfolding nodes_closed_def by blast
    from split_node_marker[OF assms this] show "marker_in (fst (fst e)) = Inr (is_synthetic ?d (fst (fst e)))" .
  qed
  have s: "{p \<in> fst ` set (edges_view ?g). is_synthetic ?d (fst p)} = synthetic_source_edges ?d"
    by (auto simp: synthetic_source_edges_def edges_view_set[OF cl])
  have r: "get_ignore_split_edges ?d T = Inr (T \<union> synthetic_source_edges ?d)" for T
    unfolding get_ignore_split_edges_def ignore_loop_char[OF m] s ..
  show ?thesis using r[of S] r[of "S \<union> synthetic_source_edges ?d"] by auto
qed

text \<open>The scenario graph meets the conditions; a set of one edge is expanded by the exit edge.\<close>

lemma expand_ignore_set_scenario:
  "well_formed scenario_graph \<and> plain_nodes scenario_graph \<and>
   synthetic_source_edges (init scenario_graph [] []) = {(PyStr ''A_B_split_1'', PyStr ''B'')} \<and>
   get_ignore_split_edges (init scenario_graph [] []) {(PyStr ''B'', PyStr ''C'')} =
     Inr {(PyStr ''B'', PyStr ''C''), (PyStr ''A_B_split_1'', PyStr ''B'')}"
proof -
  have s: "synthetic_source_edges (init scenario_graph [] []) = {(PyStr ''A_B_split_1'', PyStr ''B'')}"
    unfolding scenario_init
    by (simp add: synthetic_source_edges_def is_synthetic_def has_node_def node_ids_def
        scenario_built_def scenario_graph_def)
  show ?thesis
    using scenario_well_formed scenario_plain s
      expand_ignore_set_on_plain_names[OF scenario_well_formed scenario_plain, of "[]" "[]" "{(PyStr ''B'', PyStr ''C'')}"]
    by (simp add: insert_commute)
qed


subsection \<open>Paths that traverse original edges\<close>

lemma forward_values:
  "edge_mapping (build_prefix self xs) p = Some i \<Longrightarrow> i \<in> edge_id_of ` set xs"
proof (induction xs arbitrary: p rule: rev_induct)
  case Nil
  then show ?case by (simp add: build_prefix_Nil)
next
  case (snoc e xs)
  obtain u v key d where e: "e = (u, v, key, d)" by (cases e) auto
  from snoc.prems have "i = (u, v, key) \<or> edge_mapping (build_prefix self xs) p = Some i"
    unfolding build_prefix_snoc e edge_mapping_process' by (auto split: if_splits)
  then show ?case
  proof
    assume "i = (u, v, key)"
    then show ?thesis by (simp add: e edge_id_of_def)
  next
    assume "edge_mapping (build_prefix self xs) p = Some i"
    from snoc.IH[OF this] show ?thesis by auto
  qed
qed

lemma forward_endpoints_plain:
  assumes wf: "well_formed G" and pl: "plain_nodes G"
    and m: "edge_mapping (init G starts ends) p = Some (a, b, k)"
  shows "marker_in a = Inr False \<and> marker_in b = Inr False"
proof -
  from forward_values[OF m[unfolded init_prefix]] obtain e where e: "e \<in> set (mg_edges G)"
    "edge_id_of e = (a, b, k)" by auto
  then have "a \<in> node_ids G" "b \<in> node_ids G"
    using wf unfolding well_formed_def edge_id_of_def by auto
  then show ?thesis using pl by (simp add: plain_nodes_def)
qed

lemma simplify_targets_plain:
  "\<forall>e \<in> set xs. marker_in (fst (snd e)) = Inr False \<Longrightarrow> simplify_path xs acc = Inr (acc @ xs)"
proof (induction xs acc rule: simplify_path.induct)
  case (1 u1 v1 k1 u2 v2 k2 rest simplified_path)
  have v1: "marker_in v1 = Inr False" using "1.prems" by simp
  have r: "\<forall>e \<in> set ((u2, v2, k2) # rest). marker_in (fst (snd e)) = Inr False"
    using "1.prems" by simp
  show ?case
  proof (cases "k1 = k2")
    case True
    have nm: "\<not> (False \<and> u2 = v1)" by simp
    from "1.IH"(2)[OF True v1 nm r] show ?thesis using True v1 by simp
  next
    case False
    from "1.IH"(3)[OF False r] show ?thesis using False by simp
  qed
qed simp_all

lemma chain_soundD:
  assumes "chain_sound self" "entry_point self (u, v, key) = Some t"
  shows "edge_mapping self (u, t) = Some (u, v, key)"
    and "marker_in u = Inr False" and "marker_in v = Inr False"
    and "t \<noteq> v \<Longrightarrow> edge_mapping self (t, v) = Some (u, v, key)"
    and "t \<noteq> v \<Longrightarrow> marker_in t = Inr True"
  using assms unfolding chain_sound_def by blast+

lemma follows_collect:
  "chain_sound self \<Longrightarrow> follows self path es \<Longrightarrow>
   collect_original self path acc = Inr (acc @ es)"
proof (induction self path es arbitrary: acc rule: follows.induct)
  case (1 self n x rest u v key es)
  note cs = "1.prems"(1) and fo = "1.prems"(2)
  from fo have nu: "n = u" by simp
  from fo obtain t where t: "entry_point self (u, v, key) = Some t"
    by (auto split: option.splits)
  note f = chain_soundD[OF cs t]
  show ?case
  proof (cases "t = v")
    case True
    with fo t have x: "x = v" and r: "follows self (x # rest) es" by auto
    from "1.IH"(1)[OF t True cs r, of "acc @ [(u, v, key)]"]
    show ?thesis using f(1,2) True x nu by simp
  next
    case False
    with fo t have x: "x = t" and ne: "rest \<noteq> []" and h: "hd rest = v"
      and r: "follows self rest es" by simp_all
    from ne h obtain rest' where rest: "rest = v # rest'" by (cases rest) auto
    from "1.IH"(2)[OF t False cs r, of "acc @ [(u, v, key)]"]
    show ?thesis using f(1,2) f(4,5)[OF False] x nu rest by simp
  qed
qed simp_all

lemma follows_targets:
  "chain_sound self \<Longrightarrow> follows self path es \<Longrightarrow>
   \<forall>e \<in> set es. marker_in (fst (snd e)) = Inr False"
proof (induction self path es rule: follows.induct)
  case (1 self n x rest u v key es)
  note cs = "1.prems"(1) and fo = "1.prems"(2)
  from fo obtain t where t: "entry_point self (u, v, key) = Some t"
    by (auto split: option.splits)
  note f = chain_soundD[OF cs t]
  have "\<forall>e \<in> set es. marker_in (fst (snd e)) = Inr False"
  proof (cases "t = v")
    case True
    with fo t have r: "follows self (x # rest) es" by auto
    from "1.IH"(1)[OF t True cs r] show ?thesis .
  next
    case False
    with fo t have r: "follows self rest es" by simp
    from "1.IH"(2)[OF t False cs r] show ?thesis .
  qed
  with f(3) show ?case by simp
qed simp_all

lemma chain_sound_init:
  assumes wf: "well_formed G" and pl: "plain_nodes G" and si: "str_injective G"
  shows "chain_sound (init G starts ends)"
  unfolding chain_sound_def
proof (intro allI impI)
  fix u v key t
  let ?d = "init G starts ends"
  assume ep: "entry_point ?d (u, v, key) = Some t"
  have dd: "distinct (map edge_id_of (mg_edges G))" using wf by (simp add: well_formed_def)
  note ok = endpoints_ok_graph[OF wf plain_marker_free[OF pl]]
  note cf = clash_free_graph[OF wf si]
  from ep obtain se where se: "map_of (reverse_entries ?d (u, v)) key = Some se" "snd se = t"
    by (auto simp: entry_point_alt)
  from reverse_entry_origin[OF dd se(1)[unfolded init_prefix]]
  obtain d' ys zs where es: "mg_edges G = ys @ (u, v, key, d') # zs" by blast
  note facts = original_edge_split[OF dd ok cf es refl, of starts ends]
  from facts(1) se have t: "t = expected_target ys u v" by simp
  have un: "u \<in> node_ids G" and vn: "v \<in> node_ids G"
    using wf es unfolding well_formed_def by auto
  have mu: "marker_in u = Inr False" and mv: "marker_in v = Inr False"
    using pl un vn by (simp_all add: plain_nodes_def)
  have mt: "marker_in t = Inr True" if "t \<noteq> v"
    using expected_target_cases[of ys u v] that t by auto
  show "edge_mapping ?d (u, t) = Some (u, v, key) \<and>
        marker_in u = Inr False \<and> marker_in v = Inr False \<and>
        (t \<noteq> v \<longrightarrow> edge_mapping ?d (t, v) = Some (u, v, key) \<and> marker_in t = Inr True)"
    using facts(3,4) mu mv mt unfolding t by blast
qed

text \<open>
  In a multigraph whose node identifiers are strings or tuples that do not contain
  \<^verbatim>\<open>_split_\<close> and render to distinct text, for every path that follows the original edges
  e1, ..., en, each by the representation recorded for it, \<^verbatim>\<open>convert_path_to_original\<close>
  returns exactly e1, ..., en.
\<close>

lemma path_to_original_on_clean_names:
  assumes "well_formed G" and "plain_nodes G" and "str_injective G"
    and "follows (init G starts ends) path es"
  shows "convert_path_to_original (init G starts ends) path = Inr es"
proof -
  note cs = chain_sound_init[OF assms(1,2,3), of starts ends]
  have c: "collect_original (init G starts ends) path [] = Inr es"
    using follows_collect[OF cs assms(4), of "[]"] by simp
  from simplify_targets_plain[OF follows_targets[OF cs assms(4)], of "[]"] c show ?thesis
    by (simp add: convert_path_to_original_def)
qed

lemma scenario_str_injective: "str_injective scenario_graph"
  by (simp add: str_injective_def scenario_graph_def node_ids_def py_str_def)

text \<open>The path A, A_B_split_1, B, C of the scenario graph follows (A,B,k1) and (B,C,k0).\<close>

lemma path_to_original_scenario:
  "follows (init scenario_graph [] []) [PyStr ''A'', PyStr ''A_B_split_1'', PyStr ''B'', PyStr ''C'']
     [(PyStr ''A'', PyStr ''B'', PyStr ''k1''), (PyStr ''B'', PyStr ''C'', PyStr ''k0'')] \<and>
   convert_path_to_original (init scenario_graph [] []) [PyStr ''A'', PyStr ''A_B_split_1'', PyStr ''B'', PyStr ''C''] =
     Inr [(PyStr ''A'', PyStr ''B'', PyStr ''k1''), (PyStr ''B'', PyStr ''C'', PyStr ''k0'')]"
proof -
  have t: "follows (init scenario_graph [] []) [PyStr ''A'', PyStr ''A_B_split_1'', PyStr ''B'', PyStr ''C'']
     [(PyStr ''A'', PyStr ''B'', PyStr ''k1''), (PyStr ''B'', PyStr ''C'', PyStr ''k0'')]"
    unfolding scenario_init by (simp add: scenario_built_def entry_point_def)
  show ?thesis
    using t path_to_original_on_clean_names[OF scenario_well_formed scenario_plain
        scenario_str_injective t]
    by simp
qed

section \<open>The synthetic nodes of a pair\<close>

lemma clash_eq: "init clash_graph [] [] = clash_built"
proof -
  have n1: "split_node_name (PyStr ''A_B'') (PyStr ''C'') (Suc 0) = PyStr ''A_B_C_split_1''"
    by (simp add: split_node_name_def py_str_def split_marker_def str_nat_1)
  have n2: "split_node_name (PyStr ''A'') (PyStr ''B_C'') (Suc 0) = PyStr ''A_B_C_split_1''"
    by (simp add: split_node_name_def py_str_def split_marker_def str_nat_1)
  have z: "(flow_attr 3)(''flow'' \<mapsto> PyInt 0) = flow_attr 0"
    by (simp add: flow_attr_def)
  show ?thesis
    by (simp add: build_eval process_edge.simps clash_graph_def clash_built_def n1 n2 z)
qed


subsection \<open>Degrees and exit edges of synthetic nodes\<close>

lemma distinct_edges_prefix: "distinct (map fst (dg_edges (split_graph (build_prefix self xs))))"
proof (induction xs rule: rev_induct)
  case Nil
  then show ?case by (simp add: build_prefix_Nil)
next
  case (snoc e xs)
  obtain u v key d where e: "e = (u, v, key, d)" by (cases e) auto
  show ?case unfolding build_prefix_snoc e split_graph_process
    using snoc.IH by (simp add: distinct_edges_add_edge)
qed

lemma distinct_nodes_prefix: "distinct (map fst (dg_nodes (split_graph (build_prefix self xs))))"
proof (induction xs rule: rev_induct)
  case Nil
  then show ?case by (simp add: build_prefix_Nil distinct_nodes_start)
next
  case (snoc e xs)
  obtain u v key d where e: "e = (u, v, key, d)" by (cases e) auto
  show ?case unfolding build_prefix_snoc e split_graph_process
    using snoc.IH by (simp add: distinct_nodes_add_edge distinct_add_node)
qed

lemma edge_data_add_node [simp]: "edge_data (add_node n a g) x y = edge_data g x y"
  by (simp add: edge_data_def)

lemma edge_data_add_edge:
  "edge_data (add_edge u v a g) x y =
     (if (x, y) = (u, v) then Some (case edge_data g u v of None \<Rightarrow> a | Some old \<Rightarrow> old ++ a)
      else edge_data g x y)"
  by (simp add: edge_data_def map_of_add_edge)

lemma zero_exits_add_node: "zero_exits g \<Longrightarrow> zero_exits (add_node n a g)"
  by (simp add: zero_exits_def)

lemma zero_exits_add_edge_plain:
  assumes "zero_exits g" "\<not> str_with_marker u"
  shows "zero_exits (add_edge u v a g)"
  unfolding zero_exits_def
proof (intro allI impI)
  fix n y b assume n: "str_with_marker n" and e: "edge_data (add_edge u v a g) n y = Some b"
  from n assms(2) have "n \<noteq> u" by auto
  then have "edge_data g n y = Some b" using e by (simp add: edge_data_add_edge)
  with assms(1) n show "b ''flow'' = Some (PyInt 0)" unfolding zero_exits_def by blast
qed

lemma zero_exits_add_edge_zero:
  assumes "zero_exits g" "a ''flow'' = Some (PyInt 0)"
  shows "zero_exits (add_edge u v a g)"
  unfolding zero_exits_def
proof (intro allI impI)
  fix n y b assume n: "str_with_marker n" and e: "edge_data (add_edge u v a g) n y = Some b"
  show "b ''flow'' = Some (PyInt 0)"
  proof (cases "(n, y) = (u, v)")
    case True
    then have "b = (case edge_data g u v of None \<Rightarrow> a | Some old \<Rightarrow> old ++ a)"
      using e by (simp add: edge_data_add_edge)
    then show ?thesis using assms(2) by (auto simp: map_add_def split: option.splits)
  next
    case False
    then have "edge_data g n y = Some b" using e by (auto simp: edge_data_add_edge split: if_splits)
    with assms(1) n show ?thesis unfolding zero_exits_def by blast
  qed
qed

lemma zero_exits_prefix:
  "endpoints_ok xs \<Longrightarrow> zero_exits (split_graph (build_prefix self xs))"
proof (induction xs rule: rev_induct)
  case Nil
  then show ?case by (simp add: build_prefix_Nil zero_exits_def edge_data_def)
next
  case (snoc e xs)
  obtain u v key d where e: "e = (u, v, key, d)" by (cases e) auto
  have ok: "endpoints_ok xs" and nu: "\<not> str_with_marker u"
    using snoc.prems by (simp_all add: endpoints_ok_snoc e)
  note z = snoc.IH[OF ok]
  have zf: "(d(''flow'' \<mapsto> PyInt 0)) ''flow'' = Some (PyInt 0)" by simp
  show ?case unfolding build_prefix_snoc e split_graph_process
    using z nu zf
    by (simp add: zero_exits_add_node zero_exits_add_edge_plain zero_exits_add_edge_zero)
qed

lemma count_keys:
  assumes "distinct (map fst es)"
  shows "length (filter (\<lambda>e. P (fst e)) es) = card {p \<in> fst ` set es. P p}"
proof -
  have d: "distinct (filter P (map fst es))" using assms by simp
  have "length (filter (\<lambda>e. P (fst e)) es) = length (map fst (filter (P \<circ> fst) es))"
    by (simp add: comp_def)
  also have "\<dots> = length (filter P (map fst es))"
    by (simp only: filter_map)
  also have "\<dots> = card (set (filter P (map fst es)))"
    by (rule distinct_card[OF d, symmetric])
  also have "set (filter P (map fst es)) = {p \<in> fst ` set es. P p}" by auto
  finally show ?thesis .
qed

lemma in_degree_card:
  "distinct (map fst (dg_edges g)) \<Longrightarrow>
   in_degree g n = card {p \<in> fst ` set (dg_edges g). snd p = n}"
  using count_keys[of "dg_edges g" "\<lambda>p. snd p = n"]
  by (simp add: in_degree_def split_def)

lemma out_degree_card:
  "distinct (map fst (dg_edges g)) \<Longrightarrow>
   out_degree g n = card {p \<in> fst ` set (dg_edges g). fst p = n}"
  using count_keys[of "dg_edges g" "\<lambda>p. fst p = n"]
  by (simp add: out_degree_def split_def)

lemma parallel_nonempty: "parallel xs p \<noteq> [] \<longleftrightarrow> (\<exists>e \<in> set xs. edge_pair_of e = p)"
  by (simp add: parallel_def filter_empty_conv)

lemma parallel_endpoints:
  assumes "parallel xs (a, b) \<noteq> []" "endpoints_ok xs"
  shows "\<not> str_with_marker a \<and> \<not> str_with_marker b"
proof -
  from assms(1) obtain e where "e \<in> set xs" "edge_pair_of e = (a, b)"
    unfolding parallel_nonempty by blast
  with assms(2) show ?thesis by (auto simp: endpoints_ok_def edge_pair_of_def)
qed

lemma key_to_name:
  assumes dd: "distinct (map edge_id_of xs)" and ok: "endpoints_ok xs"
    and he: "has_edge (split_graph (build_prefix self xs)) a b" and mb: "str_with_marker b"
  shows "\<exists>v' m. 0 < m \<and> m < length (parallel xs (a, v')) \<and> b = split_node_name a v' m"
proof -
  from he split_edge_keys[OF dd ok] have "parallel xs (a, b) \<noteq> [] \<or> chain_key xs (a, b)" by simp
  moreover have "parallel xs (a, b) = []" using parallel_endpoints[OF _ ok, of a b] mb by blast
  ultimately obtain u' v' m where m: "0 < m" "m < length (parallel xs (u', v'))"
    and c: "(a, b) = (u', split_node_name u' v' m) \<or> (a, b) = (split_node_name u' v' m, v')"
    unfolding chain_key_def by blast
  have "parallel xs (u', v') \<noteq> []" using m by auto
  from parallel_endpoints[OF this ok] have "\<not> str_with_marker v'" by simp
  with c mb have "(a, b) = (u', split_node_name u' v' m)" by auto
  with m show ?thesis by auto
qed

lemma key_from_name:
  assumes dd: "distinct (map edge_id_of xs)" and ok: "endpoints_ok xs"
    and he: "has_edge (split_graph (build_prefix self xs)) a b" and ma: "str_with_marker a"
  shows "\<exists>u' m. 0 < m \<and> m < length (parallel xs (u', b)) \<and> a = split_node_name u' b m"
proof -
  from he split_edge_keys[OF dd ok] have "parallel xs (a, b) \<noteq> [] \<or> chain_key xs (a, b)" by simp
  moreover have "parallel xs (a, b) = []" using parallel_endpoints[OF _ ok, of a b] ma by blast
  ultimately obtain u' v' m where m: "0 < m" "m < length (parallel xs (u', v'))"
    and c: "(a, b) = (u', split_node_name u' v' m) \<or> (a, b) = (split_node_name u' v' m, v')"
    unfolding chain_key_def by blast
  have "parallel xs (u', v') \<noteq> []" using m by auto
  from parallel_endpoints[OF this ok] have "\<not> str_with_marker u'" by simp
  with c ma have "(a, b) = (split_node_name u' v' m, v')" by auto
  with m show ?thesis by auto
qed

lemma prefix_injective_pairs:
  assumes pi: "prefix_injective G"
    and p1: "parallel (mg_edges G) (u, v) \<noteq> []" and p2: "parallel (mg_edges G) (u', v') \<noteq> []"
    and eq: "pair_prefix u v = pair_prefix u' v'"
  shows "(u, v) = (u', v')"
proof -
  have m: "(a, b) \<in> edge_pair_of ` set (mg_edges G)" if "parallel (mg_edges G) (a, b) \<noteq> []" for a b
  proof -
    from that obtain e where "e \<in> set (mg_edges G)" "edge_pair_of e = (a, b)"
      unfolding parallel_nonempty by blast
    then show ?thesis by force
  qed
  from inj_onD[OF pi[unfolded prefix_injective_def], of "(u, v)" "(u', v')"] eq m[OF p1] m[OF p2]
  show ?thesis by simp
qed


lemma chain_keys_present:
  assumes dd: "distinct (map edge_id_of xs)" and ok: "endpoints_ok xs"
    and c: "0 < c" "c < length (parallel xs (u, v))"
  shows "has_edge (split_graph (build_prefix self xs)) u (split_node_name u v c)"
    and "has_edge (split_graph (build_prefix self xs)) (split_node_name u v c) v"
proof -
  have "chain_key xs (u, split_node_name u v c)" "chain_key xs (split_node_name u v c, v)"
    unfolding chain_key_def using c by blast+
  then show "has_edge (split_graph (build_prefix self xs)) u (split_node_name u v c)"
    and "has_edge (split_graph (build_prefix self xs)) (split_node_name u v c) v"
    using split_edge_keys[OF dd ok] by simp_all
qed

lemma synthetic_between_set:
  assumes wf: "well_formed G" and mf: "marker_free G" and pi: "prefix_injective G"
    and k: "0 < length (parallel (mg_edges G) (u, v))"
  shows "set (synthetic_between (init G starts ends) u v) =
         split_node_name u v ` {1..<length (parallel (mg_edges G) (u, v))}"
proof (intro equalityI subsetI)
  let ?d = "init G starts ends"
  let ?es = "mg_edges G"
  have dd: "distinct (map edge_id_of ?es)" using wf by (simp add: well_formed_def)
  note ok = endpoints_ok_graph[OF wf mf]
  fix n assume "n \<in> set (synthetic_between ?d u v)"
  then have sy: "is_synthetic ?d n" and h1: "has_edge (split_graph ?d) u n"
    and h2: "has_edge (split_graph ?d) n v"
    by (simp_all add: synthetic_between_def)
  from synthetic_is_name[OF wf sy] have mn: "str_with_marker n" by auto
  from key_to_name[OF dd ok h1[unfolded init_prefix] mn]
  obtain v' m where m: "0 < m" "m < length (parallel ?es (u, v'))" "n = split_node_name u v' m"
    by blast
  from key_from_name[OF dd ok h2[unfolded init_prefix] mn]
  obtain u' m' where m': "0 < m'" "m' < length (parallel ?es (u', v))" "n = split_node_name u' v m'"
    by blast
  from m(3) m'(3) have pp: "pair_prefix u v' = pair_prefix u' v" by (simp add: split_node_name_eq)
  have "parallel ?es (u, v') \<noteq> []" "parallel ?es (u', v) \<noteq> []" using m(2) m'(2) by auto
  from prefix_injective_pairs[OF pi this pp] have "v' = v" by simp
  with m show "n \<in> split_node_name u v ` {1..<length (parallel ?es (u, v))}" by auto
next
  let ?d = "init G starts ends"
  let ?es = "mg_edges G"
  have dd: "distinct (map edge_id_of ?es)" using wf by (simp add: well_formed_def)
  note ok = endpoints_ok_graph[OF wf mf]
  fix n assume "n \<in> split_node_name u v ` {1..<length (parallel ?es (u, v))}"
  then obtain c where cm: "c \<in> {1..<length (parallel ?es (u, v))}" and n: "n = split_node_name u v c"
    by blast
  from cm have c: "0 < c" "c < length (parallel ?es (u, v))" by simp_all
  note h = chain_keys_present[OF dd ok c, of "blank G starts ends"]
  have hn: "has_node (split_graph ?d) n"
    unfolding init_prefix n using has_edge_nodes[OF h(1)] by simp
  have "n \<notin> node_ids G" using mf unfolding marker_free_def n using str_with_marker_name by blast
  with hn have sy: "is_synthetic ?d n" by (simp add: is_synthetic_def)
  have "n \<in> set (map fst (dg_nodes (split_graph ?d)))" using hn by (simp add: has_node_def)
  then show "n \<in> set (synthetic_between ?d u v)"
    using sy h unfolding synthetic_between_def init_prefix n by simp
qed

lemma synthetic_degrees:
  assumes wf: "well_formed G" and mf: "marker_free G" and pi: "prefix_injective G"
    and c: "0 < c" "c < length (parallel (mg_edges G) (u, v))"
  shows "in_degree (split_graph (init G starts ends)) (split_node_name u v c) = 1"
    and "out_degree (split_graph (init G starts ends)) (split_node_name u v c) = 1"
proof -
  let ?g = "split_graph (init G starts ends)"
  let ?es = "mg_edges G"
  let ?n = "split_node_name u v c"
  have dd: "distinct (map edge_id_of ?es)" using wf by (simp add: well_formed_def)
  note ok = endpoints_ok_graph[OF wf mf]
  note h = chain_keys_present[OF dd ok c, of "blank G starts ends", folded init_prefix]
  have dk: "distinct (map fst (dg_edges ?g))" unfolding init_prefix by (rule distinct_edges_prefix)
  have ne: "parallel ?es (u, v) \<noteq> []" using c by auto
  have "{p \<in> fst ` set (dg_edges ?g). snd p = ?n} = {(u, ?n)}"
  proof (intro equalityI subsetI)
    fix p assume "p \<in> {p \<in> fst ` set (dg_edges ?g). snd p = ?n}"
    then obtain a where p: "p = (a, ?n)" and he: "has_edge ?g a ?n"
      by (cases p) (auto simp: has_edge_def)
    from key_to_name[OF dd ok he[unfolded init_prefix] str_with_marker_name]
    obtain v' m where m: "m < length (parallel ?es (a, v'))" "?n = split_node_name a v' m" by blast
    from m(2) have pp: "pair_prefix u v = pair_prefix a v'" by (simp add: split_node_name_eq)
    have "parallel ?es (a, v') \<noteq> []" using m(1) by auto
    from prefix_injective_pairs[OF pi ne this pp] show "p \<in> {(u, ?n)}" by (simp add: p)
  next
    fix p assume "p \<in> {(u, ?n)}"
    then show "p \<in> {p \<in> fst ` set (dg_edges ?g). snd p = ?n}"
      using h(1) by (simp add: has_edge_def)
  qed
  then show "in_degree ?g ?n = 1" by (simp add: in_degree_card[OF dk])
  have "{p \<in> fst ` set (dg_edges ?g). fst p = ?n} = {(?n, v)}"
  proof (intro equalityI subsetI)
    fix p assume "p \<in> {p \<in> fst ` set (dg_edges ?g). fst p = ?n}"
    then obtain b where p: "p = (?n, b)" and he: "has_edge ?g ?n b"
      by (cases p) (auto simp: has_edge_def)
    from key_from_name[OF dd ok he[unfolded init_prefix] str_with_marker_name]
    obtain u' m where m: "m < length (parallel ?es (u', b))" "?n = split_node_name u' b m" by blast
    from m(2) have pp: "pair_prefix u v = pair_prefix u' b" by (simp add: split_node_name_eq)
    have "parallel ?es (u', b) \<noteq> []" using m(1) by auto
    from prefix_injective_pairs[OF pi ne this pp] show "p \<in> {(?n, v)}" by (simp add: p)
  next
    fix p assume "p \<in> {(?n, v)}"
    then show "p \<in> {p \<in> fst ` set (dg_edges ?g). fst p = ?n}"
      using h(2) by (simp add: has_edge_def)
  qed
  then show "out_degree ?g ?n = 1" by (simp add: out_degree_card[OF dk])
qed

lemma synthetic_exit_data:
  assumes wf: "well_formed G" and mf: "marker_free G"
    and sy: "is_synthetic (init G starts ends) n"
    and e: "edge_data (split_graph (init G starts ends)) n y = Some a"
  shows "a ''flow'' = Some (PyInt 0)"
proof -
  from synthetic_is_name[OF wf sy] have mn: "str_with_marker n" by auto
  have "zero_exits (split_graph (init G starts ends))"
    unfolding init_prefix by (rule zero_exits_prefix[OF endpoints_ok_graph[OF wf mf]])
  with mn e show ?thesis unfolding zero_exits_def by blast
qed

lemma has_edge_data: "has_edge g a b \<Longrightarrow> \<exists>x. edge_data g a b = Some x"
  unfolding has_edge_def edge_data_def by (metis map_of_eq_None_iff not_Some_eq)

text \<open>
  In a multigraph in which no node identifier is a string containing
  \<^verbatim>\<open>_split_\<close> and distinct node pairs joined by an edge render to distinct prefixes
  \<^verbatim>\<open>str(u)_str(v)\<close>, for every ordered pair (u, v) with exactly k parallel edges, k at least 1,
  the built split graph has exactly k - 1 synthetic nodes for the pair, with the pairwise
  distinct names made from (u, v, c) for c from 1 to k - 1, each with in-degree 1 and
  out-degree 1, and with \<^verbatim>\<open>flow = 0\<close> on its edge to the target v; and every edge that
  leaves a synthetic node carries \<^verbatim>\<open>flow = 0\<close>, whatever the flow of the original edge.
\<close>

lemma synthetic_nodes_of_a_pair:
  assumes "well_formed G" and "marker_free G" and "prefix_injective G"
    and "k = length (parallel (mg_edges G) (u, v))" and "0 < k"
  shows "length (synthetic_between (init G starts ends) u v) = k - 1 \<and>
         distinct (synthetic_between (init G starts ends) u v) \<and>
         set (synthetic_between (init G starts ends) u v) = split_node_name u v ` {1..<k} \<and>
         (\<forall>n \<in> set (synthetic_between (init G starts ends) u v).
            in_degree (split_graph (init G starts ends)) n = 1 \<and>
            out_degree (split_graph (init G starts ends)) n = 1 \<and>
            (\<exists>a. edge_data (split_graph (init G starts ends)) n v = Some a \<and>
                 a ''flow'' = Some (PyInt 0))) \<and>
         (\<forall>n y a. is_synthetic (init G starts ends) n \<and>
            edge_data (split_graph (init G starts ends)) n y = Some a \<longrightarrow>
            a ''flow'' = Some (PyInt 0))"
proof -
  let ?d = "init G starts ends"
  let ?S = "synthetic_between ?d u v"
  have kk: "0 < length (parallel (mg_edges G) (u, v))" using assms(4,5) by simp
  have st: "set ?S = split_node_name u v ` {1..<k}"
    unfolding assms(4) by (rule synthetic_between_set[OF assms(1,2,3) kk])
  have di: "distinct ?S"
    unfolding synthetic_between_def init_prefix
    by (rule distinct_filter) (rule distinct_nodes_prefix)
  have inj: "inj_on (split_node_name u v) {1..<k}"
    by (rule inj_onI) (simp add: split_node_name_inj)
  have "length ?S = card (set ?S)" using di by (simp add: distinct_card)
  also have "\<dots> = card {1..<k}" unfolding st by (rule card_image[OF inj])
  finally have len: "length ?S = k - 1" by simp
  have per: "in_degree (split_graph ?d) n = 1 \<and> out_degree (split_graph ?d) n = 1 \<and>
      (\<exists>a. edge_data (split_graph ?d) n v = Some a \<and> a ''flow'' = Some (PyInt 0))"
    if n: "n \<in> set ?S" for n
  proof -
    from n st obtain c where cm: "c \<in> {1..<k}" and nc: "n = split_node_name u v c" by blast
    from cm have c: "0 < c" "c < length (parallel (mg_edges G) (u, v))"
      unfolding assms(4) by simp_all
    note deg = synthetic_degrees[OF assms(1,2,3) c, of starts ends]
    from n have sy: "is_synthetic ?d n" and he: "has_edge (split_graph ?d) n v"
      by (simp_all add: synthetic_between_def)
    from has_edge_data[OF he] obtain a where a: "edge_data (split_graph ?d) n v = Some a" by blast
    from synthetic_exit_data[OF assms(1,2) sy a] a deg show ?thesis by (simp add: nc)
  qed
  have ex: "\<forall>n y a. is_synthetic ?d n \<and> edge_data (split_graph ?d) n y = Some a \<longrightarrow>
      a ''flow'' = Some (PyInt 0)"
    using synthetic_exit_data[OF assms(1,2)] by blast
  from len di st per ex show ?thesis by blast
qed

lemma scenario_prefix_injective: "prefix_injective scenario_graph"
  by (simp add: prefix_injective_def scenario_graph_def edge_pair_of_def pair_prefix_def py_str_def)

text \<open>The pair (A, B) of the scenario graph has two parallel edges and one synthetic node.\<close>

lemma synthetic_nodes_scenario:
  "well_formed scenario_graph \<and> marker_free scenario_graph \<and> prefix_injective scenario_graph \<and>
   length (parallel (mg_edges scenario_graph) (PyStr ''A'', PyStr ''B'')) = 2 \<and>
   synthetic_between (init scenario_graph [] []) (PyStr ''A'') (PyStr ''B'') = [PyStr ''A_B_split_1''] \<and>
   in_degree (split_graph (init scenario_graph [] [])) (PyStr ''A_B_split_1'') = 1 \<and>
   out_degree (split_graph (init scenario_graph [] [])) (PyStr ''A_B_split_1'') = 1 \<and>
   (\<exists>a. edge_data (split_graph (init scenario_graph [] [])) (PyStr ''A_B_split_1'') (PyStr ''B'') = Some a \<and>
        a ''flow'' = Some (PyInt 0))"
proof -
  have k: "2 = length (parallel (mg_edges scenario_graph) (PyStr ''A'', PyStr ''B''))"
    by (simp add: scenario_graph_def parallel_def edge_pair_of_def)
  have s: "synthetic_between (init scenario_graph [] []) (PyStr ''A'') (PyStr ''B'') = [PyStr ''A_B_split_1'']"
    unfolding scenario_init
    by (simp add: synthetic_between_def is_synthetic_def has_node_def has_edge_def node_ids_def
        scenario_built_def scenario_graph_def)
  have p: "(0::nat) < 2" by simp
  show ?thesis
    using scenario_well_formed scenario_marker_free scenario_prefix_injective k s
      synthetic_nodes_of_a_pair[OF scenario_well_formed scenario_marker_free
        scenario_prefix_injective k p, of "[]" "[]"]
    by simp
qed

section \<open>The broken-mapping error on nodes that support the marker test\<close>

text \<open>
  When every node of the graph and of the path is a string or a tuple, the conversion of a
  path raises the broken-mapping error, naming the first unmapped consecutive pair, exactly
  when some consecutive pair is unmapped, and returns normally otherwise.
\<close>

lemma find_holds: "find P xs = Some x \<Longrightarrow> P x"
  by (induction xs) (auto split: if_splits)

lemma find_member: "find P xs = Some x \<Longrightarrow> x \<in> set xs"
  by (induction xs) (auto split: if_splits)

lemma filter_only_cases:
  "\<forall>n \<in> set path. marker_in n \<noteq> Inl TypeError \<Longrightarrow>
   (case find (\<lambda>p. edge_mapping self p = None) (zip path (tl path)) of
      Some p \<Rightarrow> path_to_original_filter_only self path = Inl (ValueError (fst p) (snd p))
    | None \<Rightarrow> (\<exists>r. path_to_original_filter_only self path = Inr r))"
proof (induction self path rule: path_to_original_filter_only.induct)
  case (1 self u v rest)
  have it: "\<forall>n \<in> set (v # rest). marker_in n \<noteq> Inl TypeError" using "1.prems" by simp
  obtain b where b: "marker_in u = Inr b"
    using "1.prems" marker_in_error[of u] by (cases "marker_in u") auto
  show ?case
  proof (cases "edge_mapping self (u, v)")
    case None
    then show ?thesis by simp
  next
    case (Some oe)
    from "1.IH"[OF Some b it] show ?thesis using Some b
      by (auto split: option.splits)
  qed
qed simp_all

lemma collect_values:
  "collect_original self path acc = Inr r \<Longrightarrow> \<forall>e \<in> set acc. \<exists>p. edge_mapping self p = Some e \<Longrightarrow>
   \<forall>e \<in> set r. \<exists>p. edge_mapping self p = Some e"
proof (induction self path acc rule: collect_original.induct)
  case (1 self u v rest original_path)
  from "1.prems"(1) obtain oe b where oe: "edge_mapping self (u, v) = Some oe"
    and b: "marker_in u = Inr b"
    by (auto split: option.splits sum.splits)
  have "\<forall>e \<in> set (if \<not> b then original_path @ [oe] else original_path). \<exists>p. edge_mapping self p = Some e"
    using "1.prems"(2) oe by auto
  with "1.IH"[OF oe b] "1.prems"(1) oe b show ?case by simp
qed simp_all

lemma simplify_total:
  "plain_sources xs \<Longrightarrow> \<forall>e \<in> set xs. marker_in (fst (snd e)) \<noteq> Inl TypeError \<Longrightarrow>
   simplify_path xs acc = Inr (acc @ xs)"
proof (induction xs acc rule: simplify_path.induct)
  case (1 u1 v1 k1 u2 v2 k2 rest simplified_path)
  have u2: "marker_in u2 = Inr False" using "1.prems"(1) by (simp add: plain_sources_def)
  have ps: "plain_sources ((u2, v2, k2) # rest)" using "1.prems"(1) by (simp add: plain_sources_def)
  have tg: "\<forall>e \<in> set ((u2, v2, k2) # rest). marker_in (fst (snd e)) \<noteq> Inl TypeError"
    using "1.prems"(2) by simp
  obtain b where b: "marker_in v1 = Inr b"
    using "1.prems"(2) marker_in_error[of v1] by (cases "marker_in v1") auto
  have nm: "\<not> (b \<and> u2 = v1)" using b u2 by auto
  show ?case
  proof (cases "k1 = k2")
    case True
    from "1.IH"(2)[OF True b nm ps tg] show ?thesis using True b nm by auto
  next
    case False
    from "1.IH"(3)[OF False ps tg] show ?thesis using False by simp
  qed
qed simp_all

lemma broken_mapping_cases:
  assumes wf: "well_formed G"
    and gi: "\<forall>n \<in> node_ids G. marker_in n \<noteq> Inl TypeError"
    and pi: "\<forall>n \<in> set path. marker_in n \<noteq> Inl TypeError"
  shows "(case find (\<lambda>p. edge_mapping (init G starts ends) p = None) (zip path (tl path)) of
            Some p \<Rightarrow> convert_path_to_original (init G starts ends) path = Inl (ValueError (fst p) (snd p))
          | None \<Rightarrow> (\<exists>r. convert_path_to_original (init G starts ends) path = Inr r))"
proof (cases "find (\<lambda>p. edge_mapping (init G starts ends) p = None) (zip path (tl path))")
  case (Some p)
  with filter_only_cases[OF pi, of "init G starts ends"]
  have "path_to_original_filter_only (init G starts ends) path = Inl (ValueError (fst p) (snd p))" by simp
  then show ?thesis using Some by (simp add: convert_path_to_original_def collect_filter_only)
next
  case None
  let ?d = "init G starts ends"
  from filter_only_cases[OF pi, of ?d] None obtain xs where "path_to_original_filter_only ?d path = Inr xs"
    by auto
  then have xs: "collect_original ?d path [] = Inr xs" by (simp add: collect_filter_only)
  have ps: "plain_sources xs"
    using collect_plain[OF forward_shape_init xs] by (simp add: plain_sources_def)
  have tg: "\<forall>e \<in> set xs. marker_in (fst (snd e)) \<noteq> Inl TypeError"
  proof
    fix e assume e: "e \<in> set xs"
    have "\<forall>e \<in> set xs. \<exists>p. edge_mapping ?d p = Some e"
      using collect_values[OF xs] by simp
    with e obtain p where p: "edge_mapping ?d p = Some e" by blast
    from forward_values[OF p[unfolded init_prefix]] obtain x where x: "x \<in> set (mg_edges G)"
      "edge_id_of x = e" by auto
    then have "fst (snd e) \<in> node_ids G" using wf unfolding well_formed_def edge_id_of_def by auto
    with gi show "marker_in (fst (snd e)) \<noteq> Inl TypeError" by blast
  qed
  have "simplify_path xs [] = Inr xs"
    using simplify_total[OF ps tg, of "[]"] by simp
  then have "convert_path_to_original ?d path = Inr xs"
    using xs by (simp add: convert_path_to_original_def)
  then show ?thesis using None by simp
qed

lemma broken_mapping_iff:
  assumes "well_formed G"
    and "\<forall>n \<in> node_ids G. marker_in n \<noteq> Inl TypeError"
    and "\<forall>n \<in> set path. marker_in n \<noteq> Inl TypeError"
  shows "(\<exists>u v. convert_path_to_original (init G starts ends) path = Inl (ValueError u v) \<and>
            (u, v) \<in> set (zip path (tl path)) \<and> edge_mapping (init G starts ends) (u, v) = None) \<longleftrightarrow>
         (\<exists>p \<in> set (zip path (tl path)). edge_mapping (init G starts ends) p = None)"
    and "(\<forall>p \<in> set (zip path (tl path)). edge_mapping (init G starts ends) p \<noteq> None) \<Longrightarrow>
         \<exists>r. convert_path_to_original (init G starts ends) path = Inr r"
proof -
  let ?P = "\<lambda>p. edge_mapping (init G starts ends) p = None"
  note c = broken_mapping_cases[OF assms, of starts ends]
  show "(\<exists>u v. convert_path_to_original (init G starts ends) path = Inl (ValueError u v) \<and>
            (u, v) \<in> set (zip path (tl path)) \<and> edge_mapping (init G starts ends) (u, v) = None) \<longleftrightarrow>
         (\<exists>p \<in> set (zip path (tl path)). edge_mapping (init G starts ends) p = None)"
  proof
    assume "\<exists>u v. convert_path_to_original (init G starts ends) path = Inl (ValueError u v) \<and>
            (u, v) \<in> set (zip path (tl path)) \<and> edge_mapping (init G starts ends) (u, v) = None"
    then show "\<exists>p \<in> set (zip path (tl path)). edge_mapping (init G starts ends) p = None" by blast
  next
    assume "\<exists>p \<in> set (zip path (tl path)). edge_mapping (init G starts ends) p = None"
    then have "find ?P (zip path (tl path)) \<noteq> None"
      unfolding find_None_iff by blast
    then obtain p where p: "find ?P (zip path (tl path)) = Some p" by blast
    then have "?P p" "p \<in> set (zip path (tl path))"
      by (rule find_holds, rule find_member)
    moreover from c p have "convert_path_to_original (init G starts ends) path = Inl (ValueError (fst p) (snd p))"
      by simp
    ultimately show "\<exists>u v. convert_path_to_original (init G starts ends) path = Inl (ValueError u v) \<and>
            (u, v) \<in> set (zip path (tl path)) \<and> edge_mapping (init G starts ends) (u, v) = None"
      by (metis prod.collapse)
  qed
  assume "\<forall>p \<in> set (zip path (tl path)). edge_mapping (init G starts ends) p \<noteq> None"
  then have "find ?P (zip path (tl path)) = None" by (simp add: find_None_iff)
  with c show "\<exists>r. convert_path_to_original (init G starts ends) path = Inr r" by simp
qed

section \<open>Graphs on which the operations go wrong\<close>

lemma mix_eq: "init mix_graph [] [] = mix_built"
proof -
  have n1: "split_node_name (PyStr ''a'') (PyTuple [PyInt 1]) (Suc 0) = PyStr ''a_(1,)_split_1''"
    by (simp add: split_node_name_def py_str_def split_marker_def str_nat_1 str_int_def)
  have n2: "split_node_name (PyStr ''a'') (PyStr ''(1,)'') (Suc 0) = PyStr ''a_(1,)_split_1''"
    by (simp add: split_node_name_def py_str_def split_marker_def str_nat_1)
  have z3: "(flow_attr 3)(''flow'' \<mapsto> PyInt 0) = flow_attr 0"
    by (simp add: flow_attr_def)
  have z4: "(flow_attr 4)(''flow'' \<mapsto> PyInt 0) = flow_attr 0"
    by (simp add: flow_attr_def)
  have m: "flow_attr 3 ++ flow_attr 4 = flow_attr 4"
    by (simp add: flow_attr_def)
  show ?thesis
    by (simp add: build_eval process_edge.simps mix_graph_def mix_built_def n1 n2 z3 z4 m)
qed

lemma clash_before_last:
  "state_before clash_graph [] [] 3 =
     \<lparr>original_graph = clash_graph, additional_starts = [], additional_ends = [],
      split_graph =
        \<lparr>dg_nodes = [(PyStr ''A_B'', Map.empty), (PyStr ''C'', Map.empty),
                     (PyStr ''A'', Map.empty), (PyStr ''B_C'', Map.empty),
                     (PyStr ''A_B_C_split_1'', Map.empty)],
         dg_edges = [((PyStr ''A_B'', PyStr ''C''), flow_attr 5),
                     ((PyStr ''A_B'', PyStr ''A_B_C_split_1''), flow_attr 3),
                     ((PyStr ''A_B_C_split_1'', PyStr ''C''), flow_attr 0),
                     ((PyStr ''A'', PyStr ''B_C''), flow_attr 5)]\<rparr>,
      edge_mapping =
        [(PyStr ''A_B'', PyStr ''C'') \<mapsto> (PyStr ''A_B'', PyStr ''C'', PyInt 0),
         (PyStr ''A_B'', PyStr ''A_B_C_split_1'') \<mapsto> (PyStr ''A_B'', PyStr ''C'', PyInt 1),
         (PyStr ''A_B_C_split_1'', PyStr ''C'') \<mapsto> (PyStr ''A_B'', PyStr ''C'', PyInt 1),
         (PyStr ''A'', PyStr ''B_C'') \<mapsto> (PyStr ''A'', PyStr ''B_C'', PyInt 0)],
      reverse_edge_mapping =
        [(PyStr ''A_B'', PyStr ''C'') \<mapsto>
           [(PyInt 0, (PyStr ''A_B'', PyStr ''C'')),
            (PyInt 1, (PyStr ''A_B'', PyStr ''A_B_C_split_1''))],
         (PyStr ''A'', PyStr ''B_C'') \<mapsto> [(PyInt 0, (PyStr ''A'', PyStr ''B_C''))]]\<rparr>"
proof -
  have n1: "split_node_name (PyStr ''A_B'') (PyStr ''C'') (Suc 0) = PyStr ''A_B_C_split_1''"
    by (simp add: split_node_name_def py_str_def split_marker_def str_nat_1)
  have z: "(flow_attr 3)(''flow'' \<mapsto> PyInt 0) = flow_attr 0"
    by (simp add: flow_attr_def)
  have t: "take 3 (mg_edges clash_graph) =
     [(PyStr ''A_B'', PyStr ''C'', PyInt 0, flow_attr 5),
      (PyStr ''A_B'', PyStr ''C'', PyInt 1, flow_attr 3),
      (PyStr ''A'', PyStr ''B_C'', PyInt 0, flow_attr 5)]"
    by (simp add: clash_graph_def)
  have g: "mg_nodes clash_graph = [(PyStr ''A_B'', Map.empty), (PyStr ''C'', Map.empty),
                  (PyStr ''A'', Map.empty), (PyStr ''B_C'', Map.empty)]"
    by (simp add: clash_graph_def)
  show ?thesis
    unfolding state_before_def t build_prefix_def blank_def start_build_rec
    by (simp add: g add_nodes_from_def empty_digraph_def graph_ops Let_def process_edge.simps n1 z)
qed

text \<open>
  Claim C2 at two graphs. With the node \<^verbatim>\<open>a_split_b\<close> in the input graph, the original edge
  (X, a_split_b, 0) is not split, and \<^verbatim>\<open>convert_original_to_split\<close> returns for it the pairs
  (X, a_split_b), (a_split_b, a_split_b): the second is not an edge of the split graph, and
  \<^verbatim>\<open>convert_edge_to_original\<close> has no original edge for it. With the nodes \<^verbatim>\<open>(1,)\<close> and
  \<^verbatim>\<open>'(1,)'\<close> in the input graph, the list of the original edge (a, (1,), 1) is its chain
  through \<^verbatim>\<open>a_(1,)_split_1\<close>, and \<^verbatim>\<open>convert_edge_to_original\<close> maps the first edge of the
  chain to another original edge, (a, '(1,)', 1). In both the round trip does not return
  the edge it started from.
\<close>

theorem C2_round_trip_broken:
  "(PyStr ''X'', PyStr ''a_split_b'', PyInt 0, flow_attr 5) \<in> set (mg_edges marker_graph) \<and>
   convert_original_to_split (init marker_graph [] []) (PyStr ''X'', PyStr ''a_split_b'', PyInt 0) =
     [(PyStr ''X'', PyStr ''a_split_b''), (PyStr ''a_split_b'', PyStr ''a_split_b'')] \<and>
   \<not> has_edge (split_graph (init marker_graph [] [])) (PyStr ''a_split_b'') (PyStr ''a_split_b'') \<and>
   convert_edge_to_original (init marker_graph [] []) (PyStr ''a_split_b'', PyStr ''a_split_b'') = None \<and>
   (PyStr ''a'', PyTuple [PyInt 1], PyInt 1, flow_attr 3) \<in> set (mg_edges mix_graph) \<and>
   convert_original_to_split (init mix_graph [] []) (PyStr ''a'', PyTuple [PyInt 1], PyInt 1) =
     [(PyStr ''a'', PyStr ''a_(1,)_split_1''), (PyStr ''a_(1,)_split_1'', PyTuple [PyInt 1])] \<and>
   convert_edge_to_original (init mix_graph [] []) (PyStr ''a'', PyStr ''a_(1,)_split_1'') =
     Some (PyStr ''a'', PyStr ''(1,)'', PyInt 1)"
  unfolding marker_eq mix_eq
  by (simp add: marker_built_def marker_graph_def mix_built_def mix_graph_def has_edge_def
      convert_edge_to_original_def marker_eval convert_original_to_split.simps)

text \<open>
  Claim C3 at the graph with the pairs (A_B, C) and (A, B_C), two parallel edges each. When
  the builder processes the edge of index 3, the second edge of (A, B_C), the split graph
  has the edge A->B_C, one entry is recorded for the pair, and the name made from
  (A, B_C, 1) is \<^verbatim>\<open>A_B_C_split_1\<close>. That name is not fresh: it is already a node of the split
  graph, the synthetic node made at index 1 for the second edge of (A_B, C). The triples
  (A_B, C, 1) and (A, B_C, 1) give the same name, and in the finished object the second
  edges of the two pairs have the same entry point.
\<close>

theorem C3_name_not_fresh:
  "mg_edges clash_graph ! 3 = (PyStr ''A'', PyStr ''B_C'', PyInt 1, flow_attr 3) \<and>
   has_edge (split_graph (state_before clash_graph [] [] 3)) (PyStr ''A'') (PyStr ''B_C'') \<and>
   length (reverse_entries (state_before clash_graph [] [] 3) (PyStr ''A'', PyStr ''B_C'')) = 1 \<and>
   next_name (state_before clash_graph [] [] 3) (PyStr ''A'') (PyStr ''B_C'') = PyStr ''A_B_C_split_1'' \<and>
   has_node (split_graph (state_before clash_graph [] [] 3)) (PyStr ''A_B_C_split_1'') \<and>
   (PyStr ''A_B'', PyStr ''C'') \<noteq> (PyStr ''A'', PyStr ''B_C'') \<and>
   split_node_name (PyStr ''A_B'') (PyStr ''C'') 1 = split_node_name (PyStr ''A'') (PyStr ''B_C'') 1 \<and>
   entry_point (init clash_graph [] []) (PyStr ''A_B'', PyStr ''C'', PyInt 1) = Some (PyStr ''A_B_C_split_1'') \<and>
   entry_point (init clash_graph [] []) (PyStr ''A'', PyStr ''B_C'', PyInt 1) = Some (PyStr ''A_B_C_split_1'')"
  unfolding clash_eq clash_before_last
  by (simp add: clash_built_def clash_graph_def entry_point_def split_node_name_def py_str_def
      has_edge_def has_node_def reverse_entries_def next_name_def split_marker_def str_nat_1)

text \<open>
  Claim C5 at three graphs. With the node \<^verbatim>\<open>a_split_b\<close> in the input graph, the path
  X, a_split_b, c goes through two original edges, each by the direct edge recorded for
  it, and \<^verbatim>\<open>convert_path_to_original\<close> returns one edge id: the edge that leaves a_split_b
  is dropped. With the nodes \<^verbatim>\<open>(1,)\<close> and \<^verbatim>\<open>'(1,)'\<close> in the input graph, the path
  a, a_(1,)_split_1, (1,) is the chain recorded for the original edge (a, (1,), 1), and the
  operation returns the id of another edge, (a, '(1,)', 1). With integer node identifiers
  the path 1, 2 is the direct edge recorded for (1, 2, 0), and the operation raises
  \<^verbatim>\<open>TypeError\<close>.
\<close>

theorem C5_path_conversion_wrong:
  "entry_point (init marker_graph [] []) (PyStr ''X'', PyStr ''a_split_b'', PyInt 0) = Some (PyStr ''a_split_b'') \<and>
   entry_point (init marker_graph [] []) (PyStr ''a_split_b'', PyStr ''c'', PyInt 0) = Some (PyStr ''c'') \<and>
   has_edge (split_graph (init marker_graph [] [])) (PyStr ''X'') (PyStr ''a_split_b'') \<and>
   has_edge (split_graph (init marker_graph [] [])) (PyStr ''a_split_b'') (PyStr ''c'') \<and>
   convert_path_to_original (init marker_graph [] []) [PyStr ''X'', PyStr ''a_split_b'', PyStr ''c''] =
     Inr [(PyStr ''X'', PyStr ''a_split_b'', PyInt 0)] \<and>
   entry_point (init mix_graph [] []) (PyStr ''a'', PyTuple [PyInt 1], PyInt 1) = Some (PyStr ''a_(1,)_split_1'') \<and>
   has_edge (split_graph (init mix_graph [] [])) (PyStr ''a'') (PyStr ''a_(1,)_split_1'') \<and>
   has_edge (split_graph (init mix_graph [] [])) (PyStr ''a_(1,)_split_1'') (PyTuple [PyInt 1]) \<and>
   convert_path_to_original (init mix_graph [] []) [PyStr ''a'', PyStr ''a_(1,)_split_1'', PyTuple [PyInt 1]] =
     Inr [(PyStr ''a'', PyStr ''(1,)'', PyInt 1)] \<and>
   entry_point (init int_graph [] []) (PyInt 1, PyInt 2, PyInt 0) = Some (PyInt 2) \<and>
   has_edge (split_graph (init int_graph [] [])) (PyInt 1) (PyInt 2) \<and>
   convert_path_to_original (init int_graph [] []) [PyInt 1, PyInt 2] = Inl TypeError"
  unfolding marker_eq mix_eq int_eq
  by (simp add: marker_built_def mix_built_def int_built_def entry_point_def has_edge_def
      convert_path_to_original_def marker_eval)

text \<open>
  Claim C7 at the graph with the node \<^verbatim>\<open>a_split_b\<close>. The entry point recorded for the edge
  (X, a_split_b, 0) is its direct target a_split_b, a node of the input graph and not a
  synthetic node, and \<^verbatim>\<open>convert_original_to_split\<close> returns the two pairs
  (X, a_split_b), (a_split_b, a_split_b) instead of the single edge (X, a_split_b); the
  second pair is not an edge of the split graph.
\<close>

theorem C7_direct_target_taken_for_split:
  "entry_point (init marker_graph [] []) (PyStr ''X'', PyStr ''a_split_b'', PyInt 0) = Some (PyStr ''a_split_b'') \<and>
   PyStr ''a_split_b'' \<in> node_ids marker_graph \<and>
   \<not> is_synthetic (init marker_graph [] []) (PyStr ''a_split_b'') \<and>
   convert_original_to_split (init marker_graph [] []) (PyStr ''X'', PyStr ''a_split_b'', PyInt 0) =
     [(PyStr ''X'', PyStr ''a_split_b''), (PyStr ''a_split_b'', PyStr ''a_split_b'')] \<and>
   \<not> has_edge (split_graph (init marker_graph [] [])) (PyStr ''a_split_b'') (PyStr ''a_split_b'')"
  unfolding marker_eq
  by (simp add: marker_built_def marker_graph_def entry_point_def is_synthetic_def node_ids_def
      has_edge_def convert_original_to_split.simps marker_eval)

text \<open>
  Claim C8 at two graphs. With the node \<^verbatim>\<open>a_split_b\<close> in the input graph the split graph
  has no synthetic node, so no edge has a synthetic source, and
  \<^verbatim>\<open>get_ignore_split_edges\<close> of the empty set holds the edge a_split_b->c, the only
  representation of the original edge (a_split_b, c, 0). With integer node identifiers the
  operation returns no set at all: it raises \<^verbatim>\<open>TypeError\<close>.
\<close>

theorem C8_expansion_wrong:
  "synthetic_source_edges (init marker_graph [] []) = {} \<and>
   get_ignore_split_edges (init marker_graph [] []) {} = Inr {(PyStr ''a_split_b'', PyStr ''c'')} \<and>
   convert_original_to_split (init marker_graph [] []) (PyStr ''a_split_b'', PyStr ''c'', PyInt 0) =
     [(PyStr ''a_split_b'', PyStr ''c'')] \<and>
   synthetic_source_edges (init int_graph [] []) = {} \<and>
   get_ignore_split_edges (init int_graph [] []) {} = Inl TypeError"
  unfolding marker_eq int_eq
  by (simp add: marker_built_def marker_graph_def int_built_def int_graph_def
      get_ignore_split_edges_def edges_view_def synthetic_source_edges_def is_synthetic_def
      node_ids_def convert_original_to_split.simps marker_eval)

text \<open>
  Claim C9 at the graph with two parallel edges on (A_B, C) and two on (A, B_C). Each pair
  has k = 2 parallel edges and one synthetic node, but it is the same node
  \<^verbatim>\<open>A_B_C_split_1\<close> for both: the whole split graph has one synthetic node for the two
  pairs, its name is not unique to a pair, and its in-degree and out-degree are 2.
\<close>

theorem C9_shared_synthetic_node:
  "length (parallel (mg_edges clash_graph) (PyStr ''A_B'', PyStr ''C'')) = 2 \<and>
   length (parallel (mg_edges clash_graph) (PyStr ''A'', PyStr ''B_C'')) = 2 \<and>
   synthetic_between (init clash_graph [] []) (PyStr ''A_B'') (PyStr ''C'') = [PyStr ''A_B_C_split_1''] \<and>
   synthetic_between (init clash_graph [] []) (PyStr ''A'') (PyStr ''B_C'') = [PyStr ''A_B_C_split_1''] \<and>
   filter (is_synthetic (init clash_graph [] [])) (map fst (dg_nodes (split_graph (init clash_graph [] [])))) =
     [PyStr ''A_B_C_split_1''] \<and>
   in_degree (split_graph (init clash_graph [] [])) (PyStr ''A_B_C_split_1'') = 2 \<and>
   out_degree (split_graph (init clash_graph [] [])) (PyStr ''A_B_C_split_1'') = 2"
  unfolding clash_eq
  by (simp add: clash_built_def clash_graph_def parallel_def edge_pair_of_def synthetic_between_def
      is_synthetic_def has_node_def has_edge_def node_ids_def in_degree_def out_degree_def)

end
